theory Spec2Isabelle
  imports Main "HOL-Library.Word" "HOL-Library.Multiset" "HOL-Library.Finite_Map"
begin

section \<open>The JNI boundary of RenderEffect.cpp\<close>

text \<open>
  The file under study is a JNI layer: every entry point turns \<open>jlong\<close> handles into
  native pointers, takes a reference on the inputs (\<open>sk_ref_sp\<close>), asks the graphics
  library for a node, and returns the address of the node as a \<open>jlong\<close>.  The model
  passes the native heap explicitly: a finite map from addresses to reference-counted
  objects.  A \<open>jfloat\<close> is carried as its IEEE-754 bit pattern, since this layer never
  computes with it.
\<close>

type_synonym jlong = "64 word"
type_synonym jint = "32 word"
type_synonym jfloat = "32 word"
type_synonym pixels = "32 word list"

datatype SkRect = MakeLTRB jfloat jfloat jfloat jfloat

datatype SkFilterQuality = kNone_SkFilterQuality | kLow_SkFilterQuality
  | kMedium_SkFilterQuality | kHigh_SkFilterQuality

text \<open>
  What the constructors of \<open>SkImageFilters\<close> are asked to build, with the arguments in
  the order of the calls in RenderEffect.cpp.  Pointer arguments are addresses; \<open>0\<close> is
  \<open>nullptr\<close>.  The crop rectangle of \<open>Blur\<close> and \<open>ColorFilter\<close> is an optional
  rectangle (the source always passes \<open>nullptr\<close>).
\<close>

datatype SkImageFilter =
    Offset jfloat jfloat jlong
  | Blur jfloat jfloat jint jlong "SkRect option"
  | Image jlong SkRect SkRect SkFilterQuality
  | ColorFilter jlong jlong "SkRect option"
  | Blend jint jlong jlong
  | Compose jlong jlong

text \<open>
  The objects of the native heap this layer meets: image-filter nodes, colour filters
  (opaque here, named by a tag), immutable images and mutable bitmaps.
\<close>

datatype object =
    Filter SkImageFilter
  | SkColorFilter nat
  | SkImage pixels
  | Bitmap pixels

record SkRefCnt =
  fRefCnt :: int
  obj :: object

type_synonym heap = "(jlong, SkRefCnt) fmap"

datatype fault = InvalidPointer jlong | OutOfMemory

text \<open>The references an object holds: the \<open>sk_sp\<close> members its destructor releases.\<close>

fun inputs :: "SkImageFilter \<Rightarrow> jlong list" where
  "inputs (Offset dx dy input) = [input]"
| "inputs (Blur sigmaX sigmaY tileMode input cropRect) = [input]"
| "inputs (Image img srcRect dstRect quality) = [img]"
| "inputs (ColorFilter cf input cropRect) = [cf, input]"
| "inputs (Blend mode background foreground) = [background, foreground]"
| "inputs (Compose outer inner) = [outer, inner]"

fun members :: "object \<Rightarrow> jlong list" where
  "members (Filter n) = inputs n"
| "members (SkColorFilter t) = []"
| "members (SkImage px) = []"
| "members (Bitmap px) = []"

subsection \<open>Reference counting (SkRefCnt.h)\<close>

text \<open>
  Modelled from the spec: the reference counting of the external graphics library, which
  the entry points use through \<open>sk_ref_sp\<close> and \<open>SkSafeUnref\<close>.  The spec's lifecycle: a
  node used as an input has its count incremented; the deallocation hook decrements the
  count, and the node is freed when the count reaches zero.  The count \<open>fRefCnt\<close> is an
  unbounded integer here.

  \<open>sk_ref_sp(p)\<close>: a new owning pointer to \<open>p\<close>; the count of a non-null \<open>p\<close> goes up
  by one.  A non-null address that holds no object is a stale or foreign handle: the
  dereference is undefined behaviour, modelled as the fault \<open>InvalidPointer\<close>.
\<close>

definition sk_ref_sp :: "jlong \<Rightarrow> heap \<Rightarrow> fault + heap" where
  "sk_ref_sp p s =
     (if p = 0 then Inr s
      else case fmlookup s p of
             None \<Rightarrow> Inl (InvalidPointer p)
           | Some c \<Rightarrow> Inr (fmupd p (c\<lparr>fRefCnt := fRefCnt c + 1\<rparr>) s))"

text \<open>
  Releasing a list of owning pointers, left to right.  A null pointer is skipped; a count
  above one is decremented; the holder of the last reference deletes the object, whose
  destructor releases its members before the rest of the list is looked at.
\<close>

function unref_all :: "jlong list \<Rightarrow> heap \<Rightarrow> fault + heap" where
  "unref_all [] s = Inr s"
| "unref_all (p # ps) s =
     (if p = 0 then unref_all ps s
      else case fmlookup s p of
             None \<Rightarrow> Inl (InvalidPointer p)
           | Some c \<Rightarrow>
               if fRefCnt c = 1 then unref_all (members (obj c) @ ps) (fmdrop p s)
               else unref_all ps (fmupd p (c\<lparr>fRefCnt := fRefCnt c - 1\<rparr>) s))"
  by pat_completeness auto
termination
proof (relation "measures [\<lambda>(ps, s). card (fmdom' s), \<lambda>(ps, s). length ps]")
  show "wf (measures [\<lambda>(ps, s). card (fmdom' s), \<lambda>(ps, s :: heap). length ps])"
    by simp
next
  fix p :: jlong and ps :: "jlong list" and s :: heap
  assume "p = 0"
  then show "((ps, s), (p # ps, s)) \<in> measures [\<lambda>(ps, s). card (fmdom' s), \<lambda>(ps, s). length ps]"
    by simp
next
  fix p :: jlong and ps :: "jlong list" and s :: heap and c :: SkRefCnt
  assume "fmlookup s p = Some c"
  then have "p \<in> fmdom' s"
    by (rule fmdom'I)
  then have "card (fmdom' s - {p}) < card (fmdom' s)"
    by (intro card_Diff1_less) simp_all
  then show "((members (obj c) @ ps, fmdrop p s), (p # ps, s))
      \<in> measures [\<lambda>(ps, s). card (fmdom' s), \<lambda>(ps, s). length ps]"
    by simp
next
  fix p :: jlong and ps :: "jlong list" and s :: heap and c :: SkRefCnt
  assume "fmlookup s p = Some c"
  then have "insert p (fmdom' s) = fmdom' s"
    by (auto dest: fmdom'I)
  then show "((ps, fmupd p (c\<lparr>fRefCnt := fRefCnt c - 1\<rparr>) s), (p # ps, s))
      \<in> measures [\<lambda>(ps, s). card (fmdom' s), \<lambda>(ps, s). length ps]"
    by simp
qed

definition SkSafeUnref :: "jlong \<Rightarrow> heap \<Rightarrow> fault + heap" where
  "SkSafeUnref p s = unref_all [p] s"

subsection \<open>The collaborators outside RenderEffect.cpp\<close>

text \<open>
  Three things the entry points use are not in the file: the allocator behind \<open>new\<close>,
  the decision of the graphics library to build the node it was asked for or to return
  \<open>nullptr\<close>, and \<open>Blur::convertRadiusToSigma\<close> (utils/Blur.h).  They are parameters
  of the model.  The allocator sees the set of addresses in use.
\<close>

record skia =
  allocate :: "jlong fset \<Rightarrow> jlong"
  constructs :: "SkImageFilter \<Rightarrow> bool"
  convertRadiusToSigma :: "jfloat \<Rightarrow> jfloat"

text \<open>
  \<open>new T(...)\<close>: the object starts with a count of one.  An allocator that has no fresh
  non-null address to give ends the process (\<open>OutOfMemory\<close>).
\<close>

definition new_object :: "skia \<Rightarrow> object \<Rightarrow> heap \<Rightarrow> fault + (jlong \<times> heap)" where
  "new_object E ob s =
     (let a = allocate E (fmdom s)
      in if a = 0 \<or> a |\<in>| fmdom s then Inl OutOfMemory
         else Inr (a, fmupd a \<lparr>fRefCnt = 1, obj = ob\<rparr> s))"

text \<open>
  Modelled from the spec: the constructors of \<open>SkImageFilters\<close> (the external graphics
  library).  The spec's lifecycle: a node is "created by a factory call (refcount = 1
  relative to the returned handle)" and "retains references to the inputs"; and, when the
  library cannot construct a node, it "returns a null reference".  The owning pointers
  passed by value to a call that builds nothing are released as the call returns.
\<close>

definition SkImageFilters_make :: "skia \<Rightarrow> SkImageFilter \<Rightarrow> heap \<Rightarrow> fault + (jlong \<times> heap)" where
  "SkImageFilters_make E n s =
     (if constructs E n then new_object E (Filter n) s
      else case unref_all (inputs n) s of
             Inl e \<Rightarrow> Inl e
           | Inr s' \<Rightarrow> Inr (0, s'))"

text \<open>
  Modelled from the spec: \<open>android::bitmap::toBitmap\<close> (jni/Bitmap.cpp) and
  \<open>Bitmap::makeImage\<close> (hwui/Bitmap.cpp), which RenderEffect.cpp calls and does not
  define.  The handle denotes "a pixel-backed image resource"; \<open>makeImage\<close> "takes a
  snapshot/image view of the bitmap's current pixel contents at call time": a new image
  object holding the pixels the bitmap has at the call.  A null or foreign bitmap handle
  is a fault.
\<close>

definition toBitmap :: "jlong \<Rightarrow> heap \<Rightarrow> fault + pixels" where
  "toBitmap bitmapHandle s =
     (if bitmapHandle = 0 then Inl (InvalidPointer bitmapHandle)
      else case fmlookup s bitmapHandle of
             None \<Rightarrow> Inl (InvalidPointer bitmapHandle)
           | Some c \<Rightarrow> (case obj c of
                         Bitmap px \<Rightarrow> Inr px
                       | _ \<Rightarrow> Inl (InvalidPointer bitmapHandle)))"

definition makeImage :: "skia \<Rightarrow> pixels \<Rightarrow> heap \<Rightarrow> fault + (jlong \<times> heap)" where
  "makeImage E px s = new_object E (SkImage px) s"

subsection \<open>The entry points of RenderEffect.cpp\<close>

text \<open>
  Each entry point takes the heap and returns a fault or the handle with the new heap.
  \<open>reinterpret_cast\<close> between \<open>jlong\<close> and a pointer keeps the value, and
  \<open>sk_sp::release\<close> hands out the address without touching the count.
\<close>

definition createOffsetEffect ::
  "skia \<Rightarrow> jfloat \<Rightarrow> jfloat \<Rightarrow> jlong \<Rightarrow> heap \<Rightarrow> fault + (jlong \<times> heap)" where
  "createOffsetEffect E offsetX offsetY inputFilterHandle s =
     (let inputFilter = inputFilterHandle
      in case sk_ref_sp inputFilter s of
           Inl e \<Rightarrow> Inl e
         | Inr s1 \<Rightarrow> SkImageFilters_make E (Offset offsetX offsetY inputFilter) s1)"

definition createBlurEffect ::
  "skia \<Rightarrow> jfloat \<Rightarrow> jfloat \<Rightarrow> jlong \<Rightarrow> jint \<Rightarrow> heap \<Rightarrow> fault + (jlong \<times> heap)" where
  "createBlurEffect E radiusX radiusY inputFilterHandle edgeTreatment s =
     (let inputImageFilter = inputFilterHandle
      in case sk_ref_sp inputImageFilter s of
           Inl e \<Rightarrow> Inl e
         | Inr s1 \<Rightarrow>
             SkImageFilters_make E
               (Blur (convertRadiusToSigma E radiusX) (convertRadiusToSigma E radiusY)
                  edgeTreatment inputImageFilter None) s1)"

definition createBitmapEffect ::
  "skia \<Rightarrow> jlong \<Rightarrow> jfloat \<Rightarrow> jfloat \<Rightarrow> jfloat \<Rightarrow> jfloat \<Rightarrow> jfloat \<Rightarrow> jfloat \<Rightarrow> jfloat \<Rightarrow> jfloat
     \<Rightarrow> heap \<Rightarrow> fault + (jlong \<times> heap)" where
  "createBitmapEffect E bitmapHandle srcLeft srcTop srcRight srcBottom
       dstLeft dstTop dstRight dstBottom s =
     (case toBitmap bitmapHandle s of
        Inl e \<Rightarrow> Inl e
      | Inr px \<Rightarrow>
     (case makeImage E px s of
        Inl e \<Rightarrow> Inl e
      | Inr (img, s1) \<Rightarrow>
     (let srcRect = MakeLTRB srcLeft srcTop srcRight srcBottom;
          dstRect = MakeLTRB dstLeft dstTop dstRight dstBottom
      in case sk_ref_sp img s1 of
           Inl e \<Rightarrow> Inl e
         | Inr s2 \<Rightarrow>
        (case SkImageFilters_make E (Image img srcRect dstRect kLow_SkFilterQuality) s2 of
           Inl e \<Rightarrow> Inl e
         | Inr (bitmapFilter, s3) \<Rightarrow>
        (case unref_all [img] s3 of
           Inl e \<Rightarrow> Inl e
         | Inr s4 \<Rightarrow> Inr (bitmapFilter, s4))))))"

definition createColorFilterEffect ::
  "skia \<Rightarrow> jlong \<Rightarrow> jlong \<Rightarrow> heap \<Rightarrow> fault + (jlong \<times> heap)" where
  "createColorFilterEffect E colorFilterHandle inputFilterHandle s =
     (let colorFilter = colorFilterHandle; inputFilter = inputFilterHandle
      in case sk_ref_sp colorFilter s of
           Inl e \<Rightarrow> Inl e
         | Inr s1 \<Rightarrow>
        (case sk_ref_sp inputFilter s1 of
           Inl e \<Rightarrow> Inl e
         | Inr s2 \<Rightarrow> SkImageFilters_make E (ColorFilter colorFilter inputFilter None) s2))"

definition createBlendModeEffect ::
  "skia \<Rightarrow> jlong \<Rightarrow> jlong \<Rightarrow> jint \<Rightarrow> heap \<Rightarrow> fault + (jlong \<times> heap)" where
  "createBlendModeEffect E backgroundImageFilterHandle foregroundImageFilterHandle
       blendmodeHandle s =
     (let backgroundFilter = backgroundImageFilterHandle;
          foregroundFilter = foregroundImageFilterHandle;
          blendMode = blendmodeHandle
      in case sk_ref_sp backgroundFilter s of
           Inl e \<Rightarrow> Inl e
         | Inr s1 \<Rightarrow>
        (case sk_ref_sp foregroundFilter s1 of
           Inl e \<Rightarrow> Inl e
         | Inr s2 \<Rightarrow>
             SkImageFilters_make E (Blend blendMode backgroundFilter foregroundFilter) s2))"

definition createChainEffect ::
  "skia \<Rightarrow> jlong \<Rightarrow> jlong \<Rightarrow> heap \<Rightarrow> fault + (jlong \<times> heap)" where
  "createChainEffect E outerFilterHandle innerFilterHandle s =
     (let outerImageFilter = outerFilterHandle; innerImageFilter = innerFilterHandle
      in case sk_ref_sp outerImageFilter s of
           Inl e \<Rightarrow> Inl e
         | Inr s1 \<Rightarrow>
        (case sk_ref_sp innerImageFilter s1 of
           Inl e \<Rightarrow> Inl e
         | Inr s2 \<Rightarrow> SkImageFilters_make E (Compose outerImageFilter innerImageFilter) s2))"

definition RenderEffect_safeUnref :: "jlong \<Rightarrow> heap \<Rightarrow> fault + heap" where
  "RenderEffect_safeUnref filter' s = SkSafeUnref filter' s"

text \<open>
  \<open>getRenderEffectFinalizer\<close> returns the address of \<open>RenderEffect_safeUnref\<close>; the
  managed runtime calls the hook through it.
\<close>

definition getRenderEffectFinalizer :: "jlong \<Rightarrow> heap \<Rightarrow> fault + heap" where
  "getRenderEffectFinalizer = RenderEffect_safeUnref"

text \<open>
  The method table \<open>gRenderEffectMethods\<close>: one request per factory entry point, with
  the arguments of its JNI signature.
\<close>

datatype request =
    nativeCreateOffsetEffect jfloat jfloat jlong
  | nativeCreateBlurEffect jfloat jfloat jlong jint
  | nativeCreateBitmapEffect jlong jfloat jfloat jfloat jfloat jfloat jfloat jfloat jfloat
  | nativeCreateColorFilterEffect jlong jlong
  | nativeCreateBlendModeEffect jlong jlong jint
  | nativeCreateChainEffect jlong jlong

fun invoke :: "skia \<Rightarrow> request \<Rightarrow> heap \<Rightarrow> fault + (jlong \<times> heap)" where
  "invoke E (nativeCreateOffsetEffect dx dy input) s = createOffsetEffect E dx dy input s"
| "invoke E (nativeCreateBlurEffect rx ry input edge) s = createBlurEffect E rx ry input edge s"
| "invoke E (nativeCreateBitmapEffect b sl st sr sb dl dt dr db) s =
     createBitmapEffect E b sl st sr sb dl dt dr db s"
| "invoke E (nativeCreateColorFilterEffect cf input) s = createColorFilterEffect E cf input s"
| "invoke E (nativeCreateBlendModeEffect bg fg mode) s = createBlendModeEffect E bg fg mode s"
| "invoke E (nativeCreateChainEffect outer inner) s = createChainEffect E outer inner s"

text \<open>The handle arguments of a request on which the entry point takes a reference.\<close>

fun input_handles :: "request \<Rightarrow> jlong list" where
  "input_handles (nativeCreateOffsetEffect dx dy input) = [input]"
| "input_handles (nativeCreateBlurEffect rx ry input edge) = [input]"
| "input_handles (nativeCreateBitmapEffect b sl st sr sb dl dt dr db) = []"
| "input_handles (nativeCreateColorFilterEffect cf input) = [cf, input]"
| "input_handles (nativeCreateBlendModeEffect bg fg mode) = [bg, fg]"
| "input_handles (nativeCreateChainEffect outer inner) = [outer, inner]"

subsection \<open>Well-formed heaps\<close>

text \<open>
  \<open>held s\<close> collects the member pointers of all objects of the heap.  A heap is in
  order for a multiset \<open>H\<close> of references held outside it (the handles of the managed
  side) when the count of every object covers the references to it: those in \<open>H\<close> and
  those held by objects.  An address with an owner then holds an object.
\<close>

definition members_at :: "heap \<Rightarrow> jlong \<Rightarrow> jlong list" where
  "members_at s a = (case fmlookup s a of None \<Rightarrow> [] | Some c \<Rightarrow> members (obj c))"

definition held :: "heap \<Rightarrow> jlong multiset" where
  "held s = (\<Sum>a\<in>fmdom' s. mset (members_at s a))"

definition rc :: "heap \<Rightarrow> jlong \<Rightarrow> int" where
  "rc s p = (case fmlookup s p of None \<Rightarrow> 0 | Some c \<Rightarrow> fRefCnt c)"

definition heap_ok :: "heap \<Rightarrow> jlong multiset \<Rightarrow> bool" where
  "heap_ok s H \<longleftrightarrow> (\<forall>p. p \<noteq> 0 \<longrightarrow> int (count H p) + int (count (held s) p) \<le> rc s p)"

text \<open>The references a list of owning pointers stands for: its non-null entries.\<close>

definition owned :: "jlong list \<Rightarrow> jlong multiset" where
  "owned ps = mset (filter (\<lambda>p. p \<noteq> 0) ps)"

text \<open>\<open>shrinks s s'\<close>: every object of \<open>s'\<close> is an object of \<open>s\<close>, with the same contents.\<close>

definition shrinks :: "heap \<Rightarrow> heap \<Rightarrow> bool" where
  "shrinks s s' \<longleftrightarrow>
     (\<forall>p c'. fmlookup s' p = Some c' \<longrightarrow> (\<exists>c. fmlookup s p = Some c \<and> obj c' = obj c))"

subsection \<open>What a request needs, and what it asks for\<close>

text \<open>
  A handle argument is usable when it is null or names an object with a positive count.
  The allocator is fresh on a set of addresses when it answers with a non-null address
  outside the set.
\<close>

definition handle_ok :: "heap \<Rightarrow> jlong \<Rightarrow> bool" where
  "handle_ok s p \<longleftrightarrow> p = 0 \<or> 1 \<le> rc s p"

definition fresh :: "skia \<Rightarrow> jlong fset \<Rightarrow> bool" where
  "fresh E A \<longleftrightarrow> allocate E A \<noteq> 0 \<and> allocate E A |\<notin>| A"

text \<open>
  The inputs of a request are in order when its handles are usable; for the bitmap
  effect, when the handle names a bitmap and the image can be allocated.
\<close>

fun inputs_ok :: "skia \<Rightarrow> request \<Rightarrow> heap \<Rightarrow> bool" where
  "inputs_ok E (nativeCreateBitmapEffect b sl st sr sb dl dt dr db) s =
     (case toBitmap b s of Inl e \<Rightarrow> False | Inr px \<Rightarrow> fresh E (fmdom s))"
| "inputs_ok E r s = list_all (handle_ok s) (input_handles r)"

text \<open>The allocator has an address for the node (the bitmap effect allocates its image first).\<close>

fun alloc_ok :: "skia \<Rightarrow> request \<Rightarrow> heap \<Rightarrow> bool" where
  "alloc_ok E (nativeCreateBitmapEffect b sl st sr sb dl dt dr db) s =
     fresh E (finsert (allocate E (fmdom s)) (fmdom s))"
| "alloc_ok E r s = fresh E (fmdom s)"

text \<open>
  The node each operation stands for in the spec's table of operations (section 4.1):
  offset wraps the input; blur carries the two sigmas converted from the radii; the bitmap
  effect is an image node on the image made at the call; the colour-filter effect wraps
  the input; blend has background and foreground; chain is \<open>outer\<close> after \<open>inner\<close>.
\<close>

fun requested :: "skia \<Rightarrow> request \<Rightarrow> heap \<Rightarrow> SkImageFilter" where
  "requested E (nativeCreateOffsetEffect dx dy input) s = Offset dx dy input"
| "requested E (nativeCreateBlurEffect rx ry input edge) s =
     Blur (convertRadiusToSigma E rx) (convertRadiusToSigma E ry) edge input None"
| "requested E (nativeCreateBitmapEffect b sl st sr sb dl dt dr db) s =
     Image (allocate E (fmdom s)) (MakeLTRB sl st sr sb) (MakeLTRB dl dt dr db)
       kLow_SkFilterQuality"
| "requested E (nativeCreateColorFilterEffect cf input) s = ColorFilter cf input None"
| "requested E (nativeCreateBlendModeEffect bg fg mode) s = Blend mode bg fg"
| "requested E (nativeCreateChainEffect outer inner) s = Compose outer inner"

subsection \<open>Evaluating a filter graph\<close>

text \<open>
  Modelled from the spec: the evaluation of a filter graph, which belongs to the external
  graphics library.  The pixel operations are parameters.  From the spec: an absent input
  has "no-op passthrough semantics" (the node works on the source); chain is "apply one
  filter's output as another filter's input, forming a pipeline evaluated
  inner-to-outer"; blend "composites foreground over background"; an image node shows the
  image it holds.  The first argument bounds the depth of the graph that is followed.
\<close>

record raster =
  offsetOp :: "jfloat \<Rightarrow> jfloat \<Rightarrow> pixels \<Rightarrow> pixels"
  blurOp :: "jfloat \<Rightarrow> jfloat \<Rightarrow> jint \<Rightarrow> pixels \<Rightarrow> pixels"
  drawImageOp :: "pixels \<Rightarrow> SkRect \<Rightarrow> SkRect \<Rightarrow> SkFilterQuality \<Rightarrow> pixels"
  colorOp :: "nat \<Rightarrow> pixels \<Rightarrow> pixels"
  blendOp :: "jint \<Rightarrow> pixels \<Rightarrow> pixels \<Rightarrow> pixels"

definition object_at :: "heap \<Rightarrow> jlong \<Rightarrow> object option" where
  "object_at s p = map_option obj (fmlookup s p)"

text \<open>
  One node, given the evaluation \<open>input\<close> of the filters it refers to: a null reference
  stands for the source, which \<open>input\<close> passes through.
\<close>

definition applyFilter ::
  "raster \<Rightarrow> heap \<Rightarrow> (jlong \<Rightarrow> pixels \<Rightarrow> pixels option) \<Rightarrow> SkImageFilter \<Rightarrow> pixels
     \<Rightarrow> pixels option" where
  "applyFilter R s input n x =
     (case n of
        Offset dx dy i \<Rightarrow> map_option (offsetOp R dx dy) (input i x)
      | Blur sigmaX sigmaY tileMode i cropRect \<Rightarrow>
          map_option (blurOp R sigmaX sigmaY tileMode) (input i x)
      | Image img srcRect dstRect quality \<Rightarrow>
          (case object_at s img of
             Some (SkImage px) \<Rightarrow> Some (drawImageOp R px srcRect dstRect quality)
           | _ \<Rightarrow> None)
      | ColorFilter cf i cropRect \<Rightarrow>
          (case object_at s cf of
             Some (SkColorFilter tag) \<Rightarrow> map_option (colorOp R tag) (input i x)
           | _ \<Rightarrow> None)
      | Blend mode background foreground \<Rightarrow>
          (case input background x of
             None \<Rightarrow> None
           | Some b \<Rightarrow>
               (case input foreground x of
                  None \<Rightarrow> None
                | Some f \<Rightarrow> Some (blendOp R mode b f)))
      | Compose outer inner \<Rightarrow>
          (case input inner x of
             None \<Rightarrow> None
           | Some y \<Rightarrow> input outer y))"

primrec filterImage :: "raster \<Rightarrow> nat \<Rightarrow> heap \<Rightarrow> jlong \<Rightarrow> pixels \<Rightarrow> pixels option" where
  "filterImage R 0 s p x = (if p = 0 then Some x else None)"
| "filterImage R (Suc k) s p x =
     (if p = 0 then Some x
      else case object_at s p of
             Some (Filter n) \<Rightarrow> applyFilter R s (filterImage R k s) n x
           | _ \<Rightarrow> None)"

definition evaluates :: "raster \<Rightarrow> heap \<Rightarrow> jlong \<Rightarrow> pixels \<Rightarrow> pixels \<Rightarrow> bool" where
  "evaluates R s p x y \<longleftrightarrow> (\<exists>k. filterImage R k s p x = Some y)"

text \<open>Two heaps that differ at most in the object at one address.\<close>

definition differ_at :: "jlong \<Rightarrow> heap \<Rightarrow> heap \<Rightarrow> bool" where
  "differ_at b s s' \<longleftrightarrow> (\<forall>p. p \<noteq> b \<longrightarrow> fmlookup s' p = fmlookup s p)"

subsection \<open>The outcome of a successful construction\<close>

text \<open>
  \<open>built E r s h s'\<close>: in \<open>s'\<close> the handle \<open>h\<close> is a non-null address that was free in
  \<open>s\<close> and now holds, with a count of one, the node the request stands for; every object
  of \<open>s\<close> is still there, its count raised by the number of times the request names it as
  an input, and otherwise as it was.
\<close>

definition built :: "skia \<Rightarrow> request \<Rightarrow> heap \<Rightarrow> jlong \<Rightarrow> heap \<Rightarrow> bool" where
  "built E r s h s' \<longleftrightarrow>
     h \<noteq> 0 \<and> fmlookup s h = None
     \<and> fmlookup s' h = Some \<lparr>fRefCnt = 1, obj = Filter (requested E r s)\<rparr>
     \<and> (\<forall>p c. fmlookup s p = Some c \<longrightarrow>
          fmlookup s' p = Some (c\<lparr>fRefCnt := fRefCnt c + int (count (owned (input_handles r)) p)\<rparr>))"

subsection \<open>Instances of the collaborators for the examples\<close>

text \<open>
  An allocator that hands out the first free address among 1, 2, 3, 4; a library that
  builds every node and one that builds none.
\<close>

definition first_free :: "jlong fset \<Rightarrow> jlong" where
  "first_free A = (if 1 |\<notin>| A then 1 else if 2 |\<notin>| A then 2 else if 3 |\<notin>| A then 3 else 4)"

definition accepting :: skia where
  "accepting = \<lparr>allocate = first_free, constructs = (\<lambda>n. True), convertRadiusToSigma = (\<lambda>r. r + 1)\<rparr>"

definition refusing :: skia where
  "refusing = \<lparr>allocate = first_free, constructs = (\<lambda>n. False), convertRadiusToSigma = (\<lambda>r. r + 1)\<rparr>"

text \<open>
  Pixel operations that leave a trace of what was applied: offset and blur put their first
  parameter in front of the pixels, drawing an image shows its pixels, blending appends
  the foreground to the background.
\<close>

definition tagging :: raster where
  "tagging = \<lparr>offsetOp = (\<lambda>dx dy px. dx # px), blurOp = (\<lambda>sx sy tile px. sx # px),
     drawImageOp = (\<lambda>px src dst q. px), colorOp = (\<lambda>tag px. px),
     blendOp = (\<lambda>mode b f. b @ f)\<rparr>"

section \<open>Reference counts and the heap\<close>

lemma held_fmdrop:
  assumes "fmlookup s p = Some c"
  shows "held s = held (fmdrop p s) + mset (members (obj c))"
proof -
  have in_dom: "p \<in> fmdom' s"
    using assms by (rule fmdom'I)
  have "held s = mset (members_at s p) + (\<Sum>a\<in>fmdom' s - {p}. mset (members_at s a))"
    unfolding held_def using in_dom by (simp add: sum.remove)
  moreover have "(\<Sum>a\<in>fmdom' s - {p}. mset (members_at s a))
      = (\<Sum>a\<in>fmdom' s - {p}. mset (members_at (fmdrop p s) a))"
    by (rule sum.cong) (simp_all add: members_at_def)
  moreover have "members_at s p = members (obj c)"
    using assms by (simp add: members_at_def)
  ultimately show ?thesis
    by (simp add: held_def)
qed

lemma held_fmupd_same:
  assumes "fmlookup s p = Some c" and "obj c' = obj c"
  shows "held (fmupd p c' s) = held s"
proof -
  have "insert p (fmdom' s) = fmdom' s"
    using assms(1) by (auto dest: fmdom'I)
  moreover have "members_at (fmupd p c' s) a = members_at s a" for a
    using assms by (auto simp: members_at_def)
  ultimately show ?thesis
    by (simp add: held_def)
qed

lemma held_fmupd_new:
  assumes "fmlookup s a = None"
  shows "held (fmupd a c s) = held s + mset (members (obj c))"
proof -
  have notin: "a \<notin> fmdom' s"
    using assms by (rule fmdom'_notI)
  have "(\<Sum>x\<in>fmdom' s. mset (members_at (fmupd a c s) x)) = (\<Sum>x\<in>fmdom' s. mset (members_at s x))"
    by (rule sum.cong) (use notin in \<open>auto simp: members_at_def\<close>)
  then show ?thesis
    using notin by (simp add: held_def members_at_def)
qed

lemma count_nonnull:
  "q \<noteq> 0 \<Longrightarrow> count (mset (filter (\<lambda>p. p \<noteq> 0) ps)) q = count (mset ps) (q :: jlong)"
  by (induction ps) auto

lemma owned_simps [simp]:
  "owned [] = {#}"
  "owned (p # ps) = (if p = 0 then owned ps else add_mset p (owned ps))"
  "owned (ps @ qs) = owned ps + owned qs"
  by (simp_all add: owned_def)

lemma count_owned: "q \<noteq> 0 \<Longrightarrow> count (owned ps) q = count (mset ps) q"
  by (simp add: owned_def count_nonnull)

lemma heap_okD: "heap_ok s H \<Longrightarrow> p \<noteq> 0 \<Longrightarrow> int (count H p) + int (count (held s) p) \<le> rc s p"
  by (simp add: heap_ok_def)

lemma shrinks_refl: "shrinks s s"
  by (simp add: shrinks_def)

lemma shrinks_trans: "shrinks s t \<Longrightarrow> shrinks t u \<Longrightarrow> shrinks s u"
  unfolding shrinks_def by fastforce

lemma shrinks_drop: "shrinks s (fmdrop p s)"
  by (auto simp: shrinks_def split: if_splits)

lemma shrinks_upd: "fmlookup s p = Some c \<Longrightarrow> obj c' = obj c \<Longrightarrow> shrinks s (fmupd p c' s)"
  by (auto simp: shrinks_def split: if_splits)

lemma unref_all_ok:
  "heap_ok s (H + owned ps) \<Longrightarrow> \<exists>s'. unref_all ps s = Inr s' \<and> heap_ok s' H \<and> shrinks s s'"
proof (induction ps s rule: unref_all.induct)
  case (1 s)
  then show ?case by (simp add: shrinks_refl)
next
  case (2 p ps s)
  show ?case
  proof (cases "p = 0")
    case True
    with 2 show ?thesis by simp
  next
    case nonnull: False
    have le: "int (count (H + owned (p # ps)) p) + int (count (held s) p) \<le> rc s p"
      using "2.prems" nonnull by (rule heap_okD)
    then have "1 \<le> rc s p"
      using nonnull by simp
    then obtain c where c: "fmlookup s p = Some c" and pos: "1 \<le> fRefCnt c"
      by (auto simp: rc_def split: option.splits)
    show ?thesis
    proof (cases "fRefCnt c = 1")
      case last: True
      have none: "count H p = 0" "count (owned ps) p = 0" "count (held s) p = 0"
        using le nonnull c last by (simp_all add: rc_def del: count_mset_0_iff)
      have "heap_ok (fmdrop p s) (H + owned (members (obj c) @ ps))"
        unfolding heap_ok_def
      proof (intro allI impI)
        fix q :: jlong
        assume q: "q \<noteq> 0"
        show "int (count (H + owned (members (obj c) @ ps)) q) + int (count (held (fmdrop p s)) q)
            \<le> rc (fmdrop p s) q"
        proof (cases "q = p")
          case True
          have "count (held s) p = count (held (fmdrop p s)) p + count (mset (members (obj c))) p"
            using held_fmdrop [OF c] by simp
          then show ?thesis
            using True none q by (simp add: rc_def count_owned del: count_mset_0_iff)
        next
          case False
          have "count (held s) q = count (held (fmdrop p s)) q + count (mset (members (obj c))) q"
            using held_fmdrop [OF c] by simp
          moreover have "int (count (H + owned (p # ps)) q) + int (count (held s) q) \<le> rc s q"
            using "2.prems" q by (rule heap_okD)
          ultimately show ?thesis
            using False q nonnull by (simp add: rc_def count_owned)
        qed
      qed
      with "2.IH"(2) [OF nonnull c last] obtain s' where
        "unref_all (members (obj c) @ ps) (fmdrop p s) = Inr s'" "heap_ok s' H"
        "shrinks (fmdrop p s) s'"
        by blast
      then show ?thesis
        using nonnull c last shrinks_trans [OF shrinks_drop] by auto
    next
      case more: False
      let ?s = "fmupd p (c\<lparr>fRefCnt := fRefCnt c - 1\<rparr>) s"
      have same: "held ?s = held s"
        using c by (rule held_fmupd_same) simp
      have "heap_ok ?s (H + owned ps)"
        unfolding heap_ok_def
      proof (intro allI impI)
        fix q :: jlong
        assume q: "q \<noteq> 0"
        have "int (count (H + owned (p # ps)) q) + int (count (held s) q) \<le> rc s q"
          using "2.prems" q by (rule heap_okD)
        then show "int (count (H + owned ps) q) + int (count (held ?s) q) \<le> rc ?s q"
          using nonnull c by (auto simp: same rc_def)
      qed
      with "2.IH"(3) [OF nonnull c more] obtain s' where
        "unref_all ps ?s = Inr s'" "heap_ok s' H" "shrinks ?s s'"
        by blast
      moreover have "shrinks s ?s"
        using c by (rule shrinks_upd) simp
      ultimately show ?thesis
        using nonnull c more shrinks_trans by auto
    qed
  qed
qed

lemma fmupd_known: "fmlookup s p = Some c \<Longrightarrow> fmupd p c s = s"
  by (rule fmap_ext) auto

lemma sk_ref_sp_null: "sk_ref_sp 0 s = Inr s"
  by (simp add: sk_ref_sp_def)

lemma sk_ref_sp_some:
  "p \<noteq> 0 \<Longrightarrow> fmlookup s p = Some c \<Longrightarrow> sk_ref_sp p s = Inr (fmupd p (c\<lparr>fRefCnt := fRefCnt c + 1\<rparr>) s)"
  by (simp add: sk_ref_sp_def)

lemma handle_okE:
  assumes "handle_ok s p"
  obtains "p = 0" | c where "p \<noteq> 0" "fmlookup s p = Some c" "1 \<le> fRefCnt c"
  using assms by (auto simp: handle_ok_def rc_def split: option.splits)

lemma new_object_fresh:
  "fresh E (fmdom s) \<Longrightarrow>
     new_object E ob s = Inr (allocate E (fmdom s), fmupd (allocate E (fmdom s)) \<lparr>fRefCnt = 1, obj = ob\<rparr> s)"
  by (simp add: new_object_def fresh_def Let_def)

lemma ref1:
  assumes "handle_ok s p"
  shows "\<exists>s1. sk_ref_sp p s = Inr s1 \<and> fmdom s1 = fmdom s \<and> unref_all [p] s1 = Inr s
    \<and> (\<forall>q c. fmlookup s q = Some c \<longrightarrow>
          fmlookup s1 q = Some (c\<lparr>fRefCnt := fRefCnt c + int (count (owned [p]) q)\<rparr>))
    \<and> (\<forall>q. fmlookup s q = None \<longrightarrow> fmlookup s1 q = None)"
  using assms
proof (cases rule: handle_okE)
  case 1
  then show ?thesis by (simp add: sk_ref_sp_null)
next
  case (2 c)
  then show ?thesis
    by (auto simp: sk_ref_sp_some fmupd_known dest: fmdomI)
qed

lemma ref2:
  assumes "handle_ok s p" and "handle_ok s q"
  shows "\<exists>s1 s2. sk_ref_sp p s = Inr s1 \<and> sk_ref_sp q s1 = Inr s2 \<and> fmdom s2 = fmdom s
    \<and> unref_all [p, q] s2 = Inr s
    \<and> (\<forall>a c. fmlookup s a = Some c \<longrightarrow>
          fmlookup s2 a = Some (c\<lparr>fRefCnt := fRefCnt c + int (count (owned [p, q]) a)\<rparr>))
    \<and> (\<forall>a. fmlookup s a = None \<longrightarrow> fmlookup s2 a = None)"
  using assms(1)
proof (cases rule: handle_okE)
  case 1
  with ref1 [OF assms(2)] show ?thesis
    by (auto simp: sk_ref_sp_null)
next
  case p: (2 c)
  from assms(2) show ?thesis
  proof (cases rule: handle_okE)
    case 1
    with ref1 [OF assms(1)] show ?thesis
      using p by (auto simp: sk_ref_sp_null sk_ref_sp_some fmupd_known dest: fmdomI)
  next
    case q: (2 d)
    show ?thesis
    proof (cases "p = q")
      case True
      with p q have "d = c" by simp
      have "fmupd q (c\<lparr>fRefCnt := fRefCnt c + 1 + 1 - 1 - 1\<rparr>) s = s"
        using p True by (simp add: fmupd_known)
      with True p q \<open>d = c\<close> show ?thesis
        by (auto simp: sk_ref_sp_some dest: fmdomI)
    next
      case False
      have "fmupd q d (fmupd p c s) = s"
        using p q by (simp add: fmupd_known)
      with False p q show ?thesis
        by (auto simp: sk_ref_sp_some fmupd_reorder_neq [of q p] dest: fmdomI)
    qed
  qed
qed

lemma make_builds:
  "constructs E n \<Longrightarrow> fresh E (fmdom s) \<Longrightarrow>
     SkImageFilters_make E n s =
       Inr (allocate E (fmdom s), fmupd (allocate E (fmdom s)) \<lparr>fRefCnt = 1, obj = Filter n\<rparr> s)"
  by (simp add: SkImageFilters_make_def new_object_fresh)

lemma make_refuses:
  "\<not> constructs E n \<Longrightarrow> unref_all (inputs n) s = Inr s' \<Longrightarrow> SkImageFilters_make E n s = Inr (0, s')"
  by (simp add: SkImageFilters_make_def)

lemma built_after_refs:
  assumes s1: "fmdom s1 = fmdom s"
      "\<forall>a c. fmlookup s a = Some c \<longrightarrow>
          fmlookup s1 a = Some (c\<lparr>fRefCnt := fRefCnt c + int (count (owned (input_handles r)) a)\<rparr>)"
    and fr: "fresh E (fmdom s)" and ok: "constructs E n" and n: "n = requested E r s"
  shows "\<exists>h s'. SkImageFilters_make E n s1 = Inr (h, s') \<and> built E r s h s'"
proof -
  let ?h = "allocate E (fmdom s)"
  have h: "?h \<noteq> 0" "fmlookup s ?h = None"
    using fr by (simp_all add: fresh_def fmdom_notD)
  have "SkImageFilters_make E n s1 = Inr (?h, fmupd ?h \<lparr>fRefCnt = 1, obj = Filter n\<rparr> s1)"
    using make_builds [OF ok, of s1] fr s1(1) by simp
  moreover have "built E r s ?h (fmupd ?h \<lparr>fRefCnt = 1, obj = Filter n\<rparr> s1)"
    unfolding built_def using h s1(2) n by auto
  ultimately show ?thesis by blast
qed

lemma toBitmap_allocated: "toBitmap b s = Inr px \<Longrightarrow> object_at s b = Some (Bitmap px)"
  by (auto simp: toBitmap_def object_at_def split: if_splits option.splits object.splits)

lemma createBitmapEffect_builds:
  assumes px: "toBitmap b s = Inr px"
    and fr1: "fresh E (fmdom s)"
    and fr2: "fresh E (finsert (allocate E (fmdom s)) (fmdom s))"
    and ok: "constructs E (Image (allocate E (fmdom s)) (MakeLTRB sl st sr sb)
        (MakeLTRB dl dt dr db) kLow_SkFilterQuality)"
  shows "createBitmapEffect E b sl st sr sb dl dt dr db s =
    Inr (allocate E (finsert (allocate E (fmdom s)) (fmdom s)),
      fmupd (allocate E (fmdom s)) \<lparr>fRefCnt = 1, obj = SkImage px\<rparr>
        (fmupd (allocate E (finsert (allocate E (fmdom s)) (fmdom s)))
           \<lparr>fRefCnt = 1, obj = Filter (Image (allocate E (fmdom s)) (MakeLTRB sl st sr sb)
              (MakeLTRB dl dt dr db) kLow_SkFilterQuality)\<rparr>
           (fmupd (allocate E (fmdom s)) \<lparr>fRefCnt = 2, obj = SkImage px\<rparr> s)))"
proof -
  let ?img = "allocate E (fmdom s)"
  let ?h = "allocate E (finsert ?img (fmdom s))"
  let ?n = "Image ?img (MakeLTRB sl st sr sb) (MakeLTRB dl dt dr db) kLow_SkFilterQuality"
  let ?s1 = "fmupd ?img \<lparr>fRefCnt = 1, obj = SkImage px\<rparr> s"
  let ?s2 = "fmupd ?img \<lparr>fRefCnt = 2, obj = SkImage px\<rparr> s"
  let ?s3 = "fmupd ?h \<lparr>fRefCnt = 1, obj = Filter ?n\<rparr> ?s2"
  let ?s4 = "fmupd ?img \<lparr>fRefCnt = 1, obj = SkImage px\<rparr> ?s3"
  have img: "?img \<noteq> 0" "fmlookup s ?img = None"
    using fr1 by (simp_all add: fresh_def fmdom_notD)
  have h: "?h \<noteq> 0" "?h \<noteq> ?img" "fmlookup s ?h = None"
    using fr2 by (auto simp: fresh_def fmdom_notD)
  have 1: "makeImage E px s = Inr (?img, ?s1)"
    using fr1 by (simp add: makeImage_def new_object_fresh)
  have 2: "sk_ref_sp ?img ?s1 = Inr ?s2"
    using img by (simp add: sk_ref_sp_def)
  have 3: "SkImageFilters_make E ?n ?s2 = Inr (?h, ?s3)"
    using make_builds [of E ?n ?s2] ok fr2 by simp
  have 4: "unref_all [?img] ?s3 = Inr ?s4"
    using img h by simp
  show ?thesis
    using px 1 2 3 4 by (simp add: createBitmapEffect_def)
qed

lemma invoke_builds:
  assumes "inputs_ok E r s" and "alloc_ok E r s" and "constructs E (requested E r s)"
  shows "\<exists>h s'. invoke E r s = Inr (h, s') \<and> built E r s h s'"
proof (cases r)
  case (nativeCreateOffsetEffect dx dy input)
  with assms(1) have "handle_ok s input" by simp
  from ref1 [OF this] obtain s1 where "sk_ref_sp input s = Inr s1" "fmdom s1 = fmdom s"
    "\<forall>q c. fmlookup s q = Some c \<longrightarrow>
          fmlookup s1 q = Some (c\<lparr>fRefCnt := fRefCnt c + int (count (owned [input]) q)\<rparr>)"
    by blast
  with built_after_refs [of s1 s r E "requested E r s"] assms(2,3) nativeCreateOffsetEffect
  show ?thesis
    by (simp add: createOffsetEffect_def)
next
  case (nativeCreateBlurEffect rx ry input edge)
  with assms(1) have "handle_ok s input" by simp
  from ref1 [OF this] obtain s1 where "sk_ref_sp input s = Inr s1" "fmdom s1 = fmdom s"
    "\<forall>q c. fmlookup s q = Some c \<longrightarrow>
          fmlookup s1 q = Some (c\<lparr>fRefCnt := fRefCnt c + int (count (owned [input]) q)\<rparr>)"
    by blast
  with built_after_refs [of s1 s r E "requested E r s"] assms(2,3) nativeCreateBlurEffect
  show ?thesis
    by (simp add: createBlurEffect_def)
next
  case (nativeCreateBitmapEffect b sl st sr sb dl dt dr db)
  let ?img = "allocate E (fmdom s)"
  let ?h = "allocate E (finsert ?img (fmdom s))"
  let ?n = "Image ?img (MakeLTRB sl st sr sb) (MakeLTRB dl dt dr db) kLow_SkFilterQuality"
  from assms(1) nativeCreateBitmapEffect obtain px where
    px: "toBitmap b s = Inr px" and fr1: "fresh E (fmdom s)"
    by (auto split: sum.splits)
  let ?s' = "fmupd ?img \<lparr>fRefCnt = 1, obj = SkImage px\<rparr>
      (fmupd ?h \<lparr>fRefCnt = 1, obj = Filter ?n\<rparr>
        (fmupd ?img \<lparr>fRefCnt = 2, obj = SkImage px\<rparr> s))"
  from assms(2) nativeCreateBitmapEffect have fr2: "fresh E (finsert ?img (fmdom s))"
    by simp
  from assms(3) nativeCreateBitmapEffect have ok: "constructs E ?n"
    by simp
  have img: "?img \<noteq> 0" "fmlookup s ?img = None"
    using fr1 by (simp_all add: fresh_def fmdom_notD)
  have h: "?h \<noteq> 0" "?h \<noteq> ?img" "fmlookup s ?h = None"
    using fr2 by (auto simp: fresh_def fmdom_notD)
  have "invoke E r s = Inr (?h, ?s')"
    using createBitmapEffect_builds [OF px fr1 fr2 ok] nativeCreateBitmapEffect by simp
  moreover have "built E r s ?h (?s')"
    unfolding built_def using img h nativeCreateBitmapEffect by auto
  ultimately show ?thesis by blast
next
  case (nativeCreateColorFilterEffect cf input)
  with assms(1) have "handle_ok s cf" "handle_ok s input" by simp_all
  from ref2 [OF this] obtain s1 s2 where "sk_ref_sp cf s = Inr s1" "sk_ref_sp input s1 = Inr s2"
    "fmdom s2 = fmdom s"
    "\<forall>q c. fmlookup s q = Some c \<longrightarrow>
          fmlookup s2 q = Some (c\<lparr>fRefCnt := fRefCnt c + int (count (owned [cf, input]) q)\<rparr>)"
    by blast
  with built_after_refs [of s2 s r E "requested E r s"] assms(2,3) nativeCreateColorFilterEffect
  show ?thesis
    by (simp add: createColorFilterEffect_def)
next
  case (nativeCreateBlendModeEffect bg fg mode)
  with assms(1) have "handle_ok s bg" "handle_ok s fg" by simp_all
  from ref2 [OF this] obtain s1 s2 where "sk_ref_sp bg s = Inr s1" "sk_ref_sp fg s1 = Inr s2"
    "fmdom s2 = fmdom s"
    "\<forall>q c. fmlookup s q = Some c \<longrightarrow>
          fmlookup s2 q = Some (c\<lparr>fRefCnt := fRefCnt c + int (count (owned [bg, fg]) q)\<rparr>)"
    by blast
  with built_after_refs [of s2 s r E "requested E r s"] assms(2,3) nativeCreateBlendModeEffect
  show ?thesis
    by (simp add: createBlendModeEffect_def)
next
  case (nativeCreateChainEffect outer inner)
  with assms(1) have "handle_ok s outer" "handle_ok s inner" by simp_all
  from ref2 [OF this] obtain s1 s2 where "sk_ref_sp outer s = Inr s1" "sk_ref_sp inner s1 = Inr s2"
    "fmdom s2 = fmdom s"
    "\<forall>q c. fmlookup s q = Some c \<longrightarrow>
          fmlookup s2 q = Some (c\<lparr>fRefCnt := fRefCnt c + int (count (owned [outer, inner]) q)\<rparr>)"
    by blast
  with built_after_refs [of s2 s r E "requested E r s"] assms(2,3) nativeCreateChainEffect
  show ?thesis
    by (simp add: createChainEffect_def)
qed

lemma invoke_refuses:
  assumes "inputs_ok E r s" and "\<not> constructs E (requested E r s)"
  shows "invoke E r s = Inr (0, s)"
proof (cases r)
  case (nativeCreateOffsetEffect dx dy input)
  with assms(1) have "handle_ok s input" by simp
  from ref1 [OF this] obtain s1 where "sk_ref_sp input s = Inr s1" "unref_all [input] s1 = Inr s"
    by blast
  with assms(2) nativeCreateOffsetEffect show ?thesis
    by (simp add: createOffsetEffect_def make_refuses)
next
  case (nativeCreateBlurEffect rx ry input edge)
  with assms(1) have "handle_ok s input" by simp
  from ref1 [OF this] obtain s1 where "sk_ref_sp input s = Inr s1" "unref_all [input] s1 = Inr s"
    by blast
  with assms(2) nativeCreateBlurEffect show ?thesis
    by (simp add: createBlurEffect_def make_refuses)
next
  case (nativeCreateBitmapEffect b sl st sr sb dl dt dr db)
  let ?img = "allocate E (fmdom s)"
  from assms(1) nativeCreateBitmapEffect obtain px where
    px: "toBitmap b s = Inr px" and fr1: "fresh E (fmdom s)"
    by (auto split: sum.splits)
  have img: "?img \<noteq> 0" "fmlookup s ?img = None"
    using fr1 by (simp_all add: fresh_def fmdom_notD)
  let ?n = "Image ?img (MakeLTRB sl st sr sb) (MakeLTRB dl dt dr db) kLow_SkFilterQuality"
  let ?s1 = "fmupd ?img \<lparr>fRefCnt = 1, obj = SkImage px\<rparr> s"
  let ?s2 = "fmupd ?img \<lparr>fRefCnt = 2, obj = SkImage px\<rparr> ?s1"
  have 1: "makeImage E px s = Inr (?img, ?s1)"
    using fr1 by (simp add: makeImage_def new_object_fresh)
  have 2: "sk_ref_sp ?img ?s1 = Inr ?s2"
    using img by (simp add: sk_ref_sp_def)
  have "unref_all [?img] ?s2 = Inr ?s1"
    using img by simp
  then have 3: "SkImageFilters_make E ?n ?s2 = Inr (0, ?s1)"
    using assms(2) nativeCreateBitmapEffect by (simp add: make_refuses)
  have "fmdrop ?img s = s"
    using img by (simp add: fmdrop_idle' fmdom'_notI)
  then have 4: "unref_all [?img] ?s1 = Inr s"
    using img by (simp add: fmdrop_fmupd_same)
  show ?thesis
    using nativeCreateBitmapEffect px 1 2 3 4 by (simp add: createBitmapEffect_def)
next
  case (nativeCreateColorFilterEffect cf input)
  with assms(1) have "handle_ok s cf" "handle_ok s input" by simp_all
  from ref2 [OF this] obtain s1 s2 where "sk_ref_sp cf s = Inr s1" "sk_ref_sp input s1 = Inr s2"
    "unref_all [cf, input] s2 = Inr s"
    by blast
  with assms(2) nativeCreateColorFilterEffect show ?thesis
    by (simp add: createColorFilterEffect_def make_refuses)
next
  case (nativeCreateBlendModeEffect bg fg mode)
  with assms(1) have "handle_ok s bg" "handle_ok s fg" by simp_all
  from ref2 [OF this] obtain s1 s2 where "sk_ref_sp bg s = Inr s1" "sk_ref_sp fg s1 = Inr s2"
    "unref_all [bg, fg] s2 = Inr s"
    by blast
  with assms(2) nativeCreateBlendModeEffect show ?thesis
    by (simp add: createBlendModeEffect_def make_refuses)
next
  case (nativeCreateChainEffect outer inner)
  with assms(1) have "handle_ok s outer" "handle_ok s inner" by simp_all
  from ref2 [OF this] obtain s1 s2 where "sk_ref_sp outer s = Inr s1" "sk_ref_sp inner s1 = Inr s2"
    "unref_all [outer, inner] s2 = Inr s"
    by blast
  with assms(2) nativeCreateChainEffect show ?thesis
    by (simp add: createChainEffect_def make_refuses)
qed

lemma invoke_returns:
  assumes "inputs_ok E r s" and "alloc_ok E r s"
  shows "\<exists>h s'. invoke E r s = Inr (h, s')"
proof (cases "constructs E (requested E r s)")
  case True
  with invoke_builds [OF assms] show ?thesis by blast
next
  case False
  with invoke_refuses [OF assms(1)] show ?thesis by blast
qed

lemma built_shrinks: "built E r s h s' \<Longrightarrow> shrinks s' s"
  by (auto simp: built_def shrinks_def)

lemma built_object_at:
  "built E r s h s' \<Longrightarrow> object_at s' h = Some (Filter (requested E r s))"
  by (simp add: built_def object_at_def)

subsection \<open>The entry points keep the heap in order\<close>

lemma sk_ref_sp_heap_ok:
  assumes "sk_ref_sp p s = Inr s1" and "heap_ok s H"
  shows "heap_ok s1 (H + owned [p])"
proof (cases "p = 0")
  case True
  with assms show ?thesis by (simp add: sk_ref_sp_null)
next
  case False
  with assms(1) obtain c where c: "fmlookup s p = Some c"
    and s1: "s1 = fmupd p (c\<lparr>fRefCnt := fRefCnt c + 1\<rparr>) s"
    by (auto simp: sk_ref_sp_def split: option.splits)
  have same: "held (fmupd p (c\<lparr>fRefCnt := fRefCnt c + 1\<rparr>) s) = held s"
    using c by (rule held_fmupd_same) simp
  show ?thesis
    unfolding heap_ok_def
  proof (intro allI impI)
    fix q :: jlong
    assume "q \<noteq> 0"
    with assms(2) have "int (count H q) + int (count (held s) q) \<le> rc s q"
      by (rule heap_okD)
    then show "int (count (H + owned [p]) q) + int (count (held s1) q) \<le> rc s1 q"
      using False c by (auto simp: same s1 rc_def)
  qed
qed

lemma new_object_heap_ok:
  assumes "new_object E ob s = Inr (a, s')" and "heap_ok s (H + owned (members ob))"
  shows "heap_ok s' (add_mset a H)"
proof -
  from assms(1) have a: "a \<noteq> 0" "fmlookup s a = None"
    and s': "s' = fmupd a \<lparr>fRefCnt = 1, obj = ob\<rparr> s"
    by (auto simp: new_object_def Let_def fmdom_notD split: if_splits)
  have held': "held (fmupd a \<lparr>fRefCnt = 1, obj = ob\<rparr> s) = held s + mset (members ob)"
    using a(2) by (simp add: held_fmupd_new)
  have "int (count (H + owned (members ob)) a) + int (count (held s) a) \<le> rc s a"
    using assms(2) a(1) by (rule heap_okD)
  then have zero: "count H a = 0" "count (mset (members ob)) a = 0" "count (held s) a = 0"
    using a by (simp_all add: rc_def count_owned del: count_mset_0_iff)
  show ?thesis
    unfolding heap_ok_def
  proof (intro allI impI)
    fix q :: jlong
    assume q: "q \<noteq> 0"
    with assms(2) have "int (count (H + owned (members ob)) q) + int (count (held s) q) \<le> rc s q"
      by (rule heap_okD)
    then show "int (count (add_mset a H) q) + int (count (held s') q) \<le> rc s' q"
      using q zero by (auto simp: held' s' rc_def count_owned simp del: count_mset_0_iff)
  qed
qed

lemma make_heap_ok:
  assumes "SkImageFilters_make E n s = Inr (h, s')" and "heap_ok s (H + owned (inputs n))"
  shows "heap_ok s' (H + owned [h])"
proof (cases "constructs E n")
  case True
  with assms(1) have new: "new_object E (Filter n) s = Inr (h, s')"
    by (simp add: SkImageFilters_make_def)
  then have "h \<noteq> 0"
    by (auto simp: new_object_def Let_def split: if_splits)
  with new_object_heap_ok [OF new, of H] assms(2) show ?thesis
    by simp
next
  case False
  from unref_all_ok [OF assms(2)] obtain t where "unref_all (inputs n) s = Inr t" "heap_ok t H"
    by blast
  with False assms(1) show ?thesis
    by (simp add: SkImageFilters_make_def)
qed

lemma invoke_heap_ok:
  assumes "heap_ok s H" and "invoke E r s = Inr (h, s')"
  shows "heap_ok s' (H + owned [h])"
proof (cases r)
  case (nativeCreateOffsetEffect dx dy input)
  with assms(2) obtain s1 where 1: "sk_ref_sp input s = Inr s1"
    and 2: "SkImageFilters_make E (Offset dx dy input) s1 = Inr (h, s')"
    by (auto simp: createOffsetEffect_def split: sum.splits)
  from sk_ref_sp_heap_ok [OF 1 assms(1)] have "heap_ok s1 (H + owned (inputs (Offset dx dy input)))"
    by simp
  with 2 show ?thesis
    by (rule make_heap_ok)
next
  case (nativeCreateBlurEffect rx ry input edge)
  let ?n = "Blur (convertRadiusToSigma E rx) (convertRadiusToSigma E ry) edge input None"
  from nativeCreateBlurEffect assms(2) obtain s1 where 1: "sk_ref_sp input s = Inr s1"
    and 2: "SkImageFilters_make E ?n s1 = Inr (h, s')"
    by (auto simp: createBlurEffect_def split: sum.splits)
  from sk_ref_sp_heap_ok [OF 1 assms(1)] have "heap_ok s1 (H + owned (inputs ?n))"
    by simp
  with 2 show ?thesis
    by (rule make_heap_ok)
next
  case (nativeCreateBitmapEffect b sl st sr sb dl dt dr db)
  with assms(2) obtain px img s1 s2 s3 where 0: "makeImage E px s = Inr (img, s1)"
    and 1: "sk_ref_sp img s1 = Inr s2"
    and 2: "SkImageFilters_make E
        (Image img (MakeLTRB sl st sr sb) (MakeLTRB dl dt dr db) kLow_SkFilterQuality) s2 = Inr (h, s3)"
    and 3: "unref_all [img] s3 = Inr s'"
    by (auto simp: createBitmapEffect_def split: sum.splits)
  from 0 have new: "new_object E (SkImage px) s = Inr (img, s1)"
    by (simp add: makeImage_def)
  then have img: "img \<noteq> 0"
    by (auto simp: new_object_def Let_def split: if_splits)
  from new_object_heap_ok [OF new, of H] assms(1) have "heap_ok s1 (add_mset img H)"
    by simp
  from sk_ref_sp_heap_ok [OF 1 this] img have "heap_ok s2 (add_mset img H + owned
      (inputs (Image img (MakeLTRB sl st sr sb) (MakeLTRB dl dt dr db) kLow_SkFilterQuality)))"
    by simp
  with 2 have "heap_ok s3 (add_mset img H + owned [h])"
    by (rule make_heap_ok)
  then have "heap_ok s3 ((H + owned [h]) + owned [img])"
    using img by (simp add: add.commute)
  from unref_all_ok [OF this] 3 show ?thesis
    by auto
next
  case (nativeCreateColorFilterEffect cf input)
  with assms(2) obtain s1 s2 where 1: "sk_ref_sp cf s = Inr s1" and 2: "sk_ref_sp input s1 = Inr s2"
    and 3: "SkImageFilters_make E (ColorFilter cf input None) s2 = Inr (h, s')"
    by (auto simp: createColorFilterEffect_def split: sum.splits)
  from sk_ref_sp_heap_ok [OF 2 sk_ref_sp_heap_ok [OF 1 assms(1)]]
  have "heap_ok s2 (H + owned [cf] + owned [input])" .
  moreover have "owned (inputs (ColorFilter cf input None)) = owned [cf] + owned [input]"
    by simp
  ultimately have "heap_ok s2 (H + owned (inputs (ColorFilter cf input None)))"
    by (simp only: add.assoc)
  with 3 show ?thesis
    by (rule make_heap_ok)
next
  case (nativeCreateBlendModeEffect bg fg mode)
  with assms(2) obtain s1 s2 where 1: "sk_ref_sp bg s = Inr s1" and 2: "sk_ref_sp fg s1 = Inr s2"
    and 3: "SkImageFilters_make E (Blend mode bg fg) s2 = Inr (h, s')"
    by (auto simp: createBlendModeEffect_def split: sum.splits)
  from sk_ref_sp_heap_ok [OF 2 sk_ref_sp_heap_ok [OF 1 assms(1)]]
  have "heap_ok s2 (H + owned [bg] + owned [fg])" .
  moreover have "owned (inputs (Blend mode bg fg)) = owned [bg] + owned [fg]"
    by simp
  ultimately have "heap_ok s2 (H + owned (inputs (Blend mode bg fg)))"
    by (simp only: add.assoc)
  with 3 show ?thesis
    by (rule make_heap_ok)
next
  case (nativeCreateChainEffect outer inner)
  with assms(2) obtain s1 s2 where 1: "sk_ref_sp outer s = Inr s1" and 2: "sk_ref_sp inner s1 = Inr s2"
    and 3: "SkImageFilters_make E (Compose outer inner) s2 = Inr (h, s')"
    by (auto simp: createChainEffect_def split: sum.splits)
  from sk_ref_sp_heap_ok [OF 2 sk_ref_sp_heap_ok [OF 1 assms(1)]]
  have "heap_ok s2 (H + owned [outer] + owned [inner])" .
  moreover have "owned (inputs (Compose outer inner)) = owned [outer] + owned [inner]"
    by simp
  ultimately have "heap_ok s2 (H + owned (inputs (Compose outer inner)))"
    by (simp only: add.assoc)
  with 3 show ?thesis
    by (rule make_heap_ok)
qed

lemma heap_ok_empty: "heap_ok fmempty {#}"
  by (simp add: heap_ok_def held_def rc_def)

lemma unref_all_shrinks: "unref_all ps s = Inr s' \<Longrightarrow> shrinks s s'"
proof (induction ps s rule: unref_all.induct)
  case (1 s)
  then show ?case by (simp add: shrinks_refl)
next
  case (2 p ps s)
  show ?case
  proof (cases "p = 0")
    case True
    with 2 show ?thesis by simp
  next
    case False
    with "2.prems" obtain c where c: "fmlookup s p = Some c"
      by (auto split: option.splits)
    show ?thesis
    proof (cases "fRefCnt c = 1")
      case True
      with "2.prems" False c have "unref_all (members (obj c) @ ps) (fmdrop p s) = Inr s'"
        by simp
      with "2.IH"(2) [OF False c True] have "shrinks (fmdrop p s) s'" .
      with shrinks_drop show ?thesis
        by (rule shrinks_trans)
    next
      case more: False
      with "2.prems" False c have "unref_all ps (fmupd p (c\<lparr>fRefCnt := fRefCnt c - 1\<rparr>) s) = Inr s'"
        by simp
      with "2.IH"(3) [OF False c more] have "shrinks (fmupd p (c\<lparr>fRefCnt := fRefCnt c - 1\<rparr>) s) s'" .
      moreover have "shrinks s (fmupd p (c\<lparr>fRefCnt := fRefCnt c - 1\<rparr>) s)"
        using c by (rule shrinks_upd) simp
      ultimately show ?thesis
        using shrinks_trans by blast
    qed
  qed
qed

section \<open>Evaluation of filter graphs\<close>

lemma filterImage_null: "filterImage R k s 0 x = Some x"
  by (cases k) simp_all

lemma filterImage_node:
  "p \<noteq> 0 \<Longrightarrow> object_at s p = Some (Filter n) \<Longrightarrow>
     filterImage R (Suc k) s p x = applyFilter R s (filterImage R k s) n x"
  by simp

lemma filterImage_SomeE:
  assumes "filterImage R k s p x = Some y"
  obtains "p = 0" "y = x"
  | j n where "p \<noteq> 0" "k = Suc j" "object_at s p = Some (Filter n)"
      "applyFilter R s (filterImage R j s) n x = Some y"
proof (cases "p = 0")
  case True
  with assms that(1) show ?thesis
    by (simp add: filterImage_null)
next
  case False
  with assms obtain j where j: "k = Suc j"
    by (cases k) simp_all
  with assms False obtain n where "object_at s p = Some (Filter n)"
    by (auto split: option.splits object.splits)
  with assms False j that(2) show ?thesis
    by simp
qed

lemma applyFilter_mono:
  assumes ext: "shrinks s' s"
    and sub: "\<And>p x y. input p x = Some y \<Longrightarrow> input' p x = Some y"
    and ev: "applyFilter R s input n x = Some y"
  shows "applyFilter R s' input' n x = Some y"
proof -
  have look: "object_at s' a = Some ob" if "object_at s a = Some ob" for a ob
    using that ext by (fastforce simp: shrinks_def object_at_def)
  show ?thesis
  proof (cases n)
    case (Offset dx dy i)
    with ev sub show ?thesis
      by (auto simp: applyFilter_def)
  next
    case (Blur sx sy tile i crop)
    with ev sub show ?thesis
      by (auto simp: applyFilter_def)
  next
    case (Image img src dst q)
    with ev obtain px where "object_at s img = Some (SkImage px)"
      "y = drawImageOp R px src dst q"
      by (auto simp: applyFilter_def split: option.splits object.splits)
    with look [of img] Image show ?thesis
      by (simp add: applyFilter_def)
  next
    case (ColorFilter cf i crop)
    with ev obtain tag v where "object_at s cf = Some (SkColorFilter tag)"
      "input i x = Some v" "y = colorOp R tag v"
      by (auto simp: applyFilter_def split: option.splits object.splits)
    with look [of cf] sub [of i x v] ColorFilter show ?thesis
      by (simp add: applyFilter_def)
  next
    case (Blend mode bg fg)
    with ev obtain b f where "input bg x = Some b" "input fg x = Some f" "y = blendOp R mode b f"
      by (auto simp: applyFilter_def split: option.splits)
    with sub [of bg x b] sub [of fg x f] Blend show ?thesis
      by (simp add: applyFilter_def)
  next
    case (Compose outer inner)
    with ev obtain v where "input inner x = Some v" "input outer v = Some y"
      by (auto simp: applyFilter_def split: option.splits)
    with sub [of inner x v] sub [of outer v y] Compose show ?thesis
      by (simp add: applyFilter_def)
  qed
qed

lemma filterImage_Suc:
  "filterImage R k s p x = Some y \<Longrightarrow> filterImage R (Suc k) s p x = Some y"
proof (induction k arbitrary: p x y)
  case 0
  then show ?case by (simp split: if_splits)
next
  case (Suc k)
  from Suc.prems show ?case
  proof (cases rule: filterImage_SomeE)
    case 1
    then show ?thesis by simp
  next
    case (2 j n)
    then have "applyFilter R s (filterImage R k s) n x = Some y"
      by simp
    then have *: "applyFilter R s (filterImage R k s) n x = Some y"
      by simp
    have "applyFilter R s (filterImage R (Suc k) s) n x = Some y"
    proof (rule applyFilter_mono [where input = "filterImage R k s" and s = s])
      show "shrinks s s"
        by (rule shrinks_refl)
      show "filterImage R (Suc k) s q u = Some v" if "filterImage R k s q u = Some v" for q u v
        using that by (rule Suc.IH)
      show "applyFilter R s (filterImage R k s) n x = Some y"
        by (rule *)
    qed
    with 2 show ?thesis
      by (simp add: filterImage_node del: filterImage.simps)
  qed
qed

lemma filterImage_mono:
  "filterImage R k s p x = Some y \<Longrightarrow> filterImage R (k + j) s p x = Some y"
  by (induction j) (simp_all add: filterImage_Suc del: filterImage.simps)

lemma filterImage_extend:
  "shrinks s' s \<Longrightarrow> filterImage R k s p x = Some y \<Longrightarrow> filterImage R k s' p x = Some y"
proof (induction k arbitrary: p x y)
  case 0
  then show ?case by simp
next
  case (Suc k)
  from Suc.prems(2) show ?case
  proof (cases rule: filterImage_SomeE)
    case 1
    then show ?thesis by simp
  next
    case (2 j n)
    then have "applyFilter R s (filterImage R k s) n x = Some y"
      by simp
    then have *: "applyFilter R s (filterImage R k s) n x = Some y"
      by simp
    have "applyFilter R s' (filterImage R k s') n x = Some y"
    proof (rule applyFilter_mono [where input = "filterImage R k s" and s = s])
      show "shrinks s' s"
        by (rule Suc.prems(1))
      show "filterImage R k s' q u = Some v" if "filterImage R k s q u = Some v" for q u v
        using Suc.prems(1) that by (rule Suc.IH)
      show "applyFilter R s (filterImage R k s) n x = Some y"
        by (rule *)
    qed
    moreover from 2 Suc.prems(1) have "object_at s' p = Some (Filter n)"
      by (fastforce simp: shrinks_def object_at_def)
    ultimately show ?thesis
      using 2 by (simp add: filterImage_node del: filterImage.simps)
  qed
qed

lemma evaluatesI: "filterImage R k s p x = Some y \<Longrightarrow> evaluates R s p x y"
  by (auto simp: evaluates_def)

lemma evaluates_functional:
  assumes "evaluates R s p x y" and "evaluates R s p x y'"
  shows "y = y'"
proof -
  from assms obtain k k' where "filterImage R k s p x = Some y" "filterImage R k' s p x = Some y'"
    by (auto simp: evaluates_def)
  then have "filterImage R (k + k') s p x = Some y" "filterImage R (k' + k) s p x = Some y'"
    by (simp_all only: filterImage_mono)
  then show ?thesis
    by (simp add: add.commute)
qed

lemma evaluates_null: "evaluates R s 0 x y \<longleftrightarrow> y = x"
  by (auto simp: evaluates_def filterImage_null)

lemma evaluates_extend: "shrinks s' s \<Longrightarrow> evaluates R s p x y \<Longrightarrow> evaluates R s' p x y"
  by (auto simp: evaluates_def dest: filterImage_extend)

lemma evaluates_node:
  assumes "p \<noteq> 0" and "object_at s p = Some (Filter n)"
  shows "evaluates R s p x y \<longleftrightarrow> (\<exists>k. applyFilter R s (filterImage R k s) n x = Some y)"
proof
  assume "evaluates R s p x y"
  then obtain k where "filterImage R k s p x = Some y"
    by (auto simp: evaluates_def)
  then show "\<exists>k. applyFilter R s (filterImage R k s) n x = Some y"
    using assms by (cases rule: filterImage_SomeE) auto
next
  assume "\<exists>k. applyFilter R s (filterImage R k s) n x = Some y"
  then obtain k where "applyFilter R s (filterImage R k s) n x = Some y" ..
  with assms have "filterImage R (Suc k) s p x = Some y"
    by (simp add: filterImage_node del: filterImage.simps)
  then show "evaluates R s p x y"
    by (rule evaluatesI)
qed

lemma evaluates_Compose:
  assumes "p \<noteq> 0" and "object_at s p = Some (Filter (Compose outer inner))"
  shows "evaluates R s p x z \<longleftrightarrow> (\<exists>y. evaluates R s inner x y \<and> evaluates R s outer y z)"
proof
  assume "evaluates R s p x z"
  then obtain k where "applyFilter R s (filterImage R k s) (Compose outer inner) x = Some z"
    using evaluates_node [OF assms] by blast
  then show "\<exists>y. evaluates R s inner x y \<and> evaluates R s outer y z"
    by (auto simp: applyFilter_def evaluates_def split: option.splits)
next
  assume "\<exists>y. evaluates R s inner x y \<and> evaluates R s outer y z"
  then obtain y i j where "filterImage R i s inner x = Some y" "filterImage R j s outer y = Some z"
    by (auto simp: evaluates_def)
  then have "filterImage R (i + j) s inner x = Some y" "filterImage R (j + i) s outer y = Some z"
    by (simp_all only: filterImage_mono)
  then have "applyFilter R s (filterImage R (i + j) s) (Compose outer inner) x = Some z"
    by (simp add: applyFilter_def add.commute)
  then show "evaluates R s p x z"
    using evaluates_node [OF assms] by blast
qed

lemma evaluates_Blend:
  assumes "p \<noteq> 0" and "object_at s p = Some (Filter (Blend mode bg fg))"
  shows "evaluates R s p x z \<longleftrightarrow>
    (\<exists>b f. evaluates R s bg x b \<and> evaluates R s fg x f \<and> z = blendOp R mode b f)"
proof
  assume "evaluates R s p x z"
  then obtain k where "applyFilter R s (filterImage R k s) (Blend mode bg fg) x = Some z"
    using evaluates_node [OF assms] by blast
  then show "\<exists>b f. evaluates R s bg x b \<and> evaluates R s fg x f \<and> z = blendOp R mode b f"
    by (auto simp: applyFilter_def evaluates_def split: option.splits)
next
  assume "\<exists>b f. evaluates R s bg x b \<and> evaluates R s fg x f \<and> z = blendOp R mode b f"
  then obtain b f i j where "filterImage R i s bg x = Some b" "filterImage R j s fg x = Some f"
    and z: "z = blendOp R mode b f"
    by (auto simp: evaluates_def)
  then have "filterImage R (i + j) s bg x = Some b" "filterImage R (j + i) s fg x = Some f"
    by (simp_all only: filterImage_mono)
  then have "applyFilter R s (filterImage R (i + j) s) (Blend mode bg fg) x = Some z"
    using z by (simp add: applyFilter_def add.commute)
  then show "evaluates R s p x z"
    using evaluates_node [OF assms] by blast
qed

lemma evaluates_Image:
  assumes "p \<noteq> 0" and "object_at s p = Some (Filter (Image img src dst q))"
    and "object_at s img = Some (SkImage px)"
  shows "evaluates R s p x z \<longleftrightarrow> z = drawImageOp R px src dst q"
  using assms(3) unfolding evaluates_node [OF assms(1,2)]
  by (auto simp: applyFilter_def)

section \<open>Properties\<close>

subsection \<open>Chaining is composition\<close>

text \<open>
  Claim C1.  For handles that are null or live, and a library that builds the node,
  \<open>createChainEffect outer inner\<close> returns a new handle whose node evaluates as
  \<open>outer\<close> after \<open>inner\<close>: the output of \<open>inner\<close> on the source is the input of \<open>outer\<close>.
  What the handles of the old heap evaluate to is kept.  Chaining a third filter \<open>a\<close> in
  front of the result evaluates as \<open>a\<close> of \<open>outer\<close> of \<open>inner\<close> of the source.
\<close>

theorem chain_is_composition:
  assumes "handle_ok s outer" and "handle_ok s inner" and "fresh E (fmdom s)"
    and "constructs E (Compose outer inner)"
  shows "\<exists>h s'. createChainEffect E outer inner s = Inr (h, s') \<and> h \<noteq> 0 \<and> fmlookup s h = None
    \<and> (\<forall>x z. evaluates R s' h x z \<longleftrightarrow> (\<exists>y. evaluates R s' inner x y \<and> evaluates R s' outer y z))
    \<and> (\<forall>p x y. evaluates R s p x y \<longrightarrow> evaluates R s' p x y)
    \<and> (\<forall>a. handle_ok s' a \<longrightarrow> fresh E (fmdom s') \<longrightarrow> constructs E (Compose a h) \<longrightarrow>
          (\<exists>g t. createChainEffect E a h s' = Inr (g, t)
            \<and> (\<forall>x w. evaluates R t g x w \<longleftrightarrow>
                  (\<exists>y z. evaluates R t inner x y \<and> evaluates R t outer y z \<and> evaluates R t a z w))))"
proof -
  let ?r = "nativeCreateChainEffect outer inner"
  have "\<exists>h s'. invoke E ?r s = Inr (h, s') \<and> built E ?r s h s'"
    by (rule invoke_builds) (use assms in simp_all)
  then obtain h s' where call: "createChainEffect E outer inner s = Inr (h, s')"
    and b: "built E ?r s h s'"
    by auto
  from b have h: "h \<noteq> 0" "fmlookup s h = None" "fmlookup s' h = Some \<lparr>fRefCnt = 1, obj = Filter (Compose outer inner)\<rparr>"
    by (simp_all add: built_def)
  have node: "object_at s' h = Some (Filter (Compose outer inner))"
    using built_object_at [OF b] by simp
  have one: "evaluates R s' h x z \<longleftrightarrow> (\<exists>y. evaluates R s' inner x y \<and> evaluates R s' outer y z)" for x z
    using h(1) node by (rule evaluates_Compose)
  have frame: "evaluates R s' p x y" if "evaluates R s p x y" for p x y
    using built_shrinks [OF b] that by (rule evaluates_extend)
  have two: "\<exists>g t. createChainEffect E a h s' = Inr (g, t)
            \<and> (\<forall>x w. evaluates R t g x w \<longleftrightarrow>
                  (\<exists>y z. evaluates R t inner x y \<and> evaluates R t outer y z \<and> evaluates R t a z w))"
    if a: "handle_ok s' a" "fresh E (fmdom s')" "constructs E (Compose a h)" for a
  proof -
    let ?q = "nativeCreateChainEffect a h"
    have "handle_ok s' h"
      using h by (simp add: handle_ok_def rc_def)
    then have "\<exists>g t. invoke E ?q s' = Inr (g, t) \<and> built E ?q s' g t"
      by (intro invoke_builds) (use a in simp_all)
    then obtain g t where call2: "createChainEffect E a h s' = Inr (g, t)"
      and b2: "built E ?q s' g t"
      by auto
    from b2 have g: "g \<noteq> 0"
      by (simp add: built_def)
    have gnode: "object_at t g = Some (Filter (Compose a h))"
      using built_object_at [OF b2] by simp
    have hnode: "object_at t h = Some (Filter (Compose outer inner))"
      using b2 h(3) by (simp add: built_def object_at_def)
    have "evaluates R t g x w \<longleftrightarrow>
        (\<exists>y z. evaluates R t inner x y \<and> evaluates R t outer y z \<and> evaluates R t a z w)" for x w
      unfolding evaluates_Compose [OF g gnode] evaluates_Compose [OF h(1) hnode]
      by blast
    with call2 show ?thesis
      by blast
  qed
  from call h(1,2) one frame two show ?thesis
    by blast
qed

theorem chain_is_composition_witness:
  "\<exists>h s'. createChainEffect accepting 2 3
       (fmupd 2 \<lparr>fRefCnt = 1, obj = Filter (Offset 2 0 0)\<rparr>
         (fmupd 3 \<lparr>fRefCnt = 1, obj = Filter (Offset 3 0 0)\<rparr> fmempty)) = Inr (h, s')
     \<and> evaluates tagging s' h [] [2, 3]"
proof -
  let ?s = "fmupd 2 \<lparr>fRefCnt = 1, obj = Filter (Offset 2 0 0)\<rparr>
         (fmupd 3 \<lparr>fRefCnt = 1, obj = Filter (Offset 3 0 0)\<rparr> fmempty)"
  have "filterImage tagging (Suc 0) ?s 3 [] = Some [3]"
    by (simp add: object_at_def applyFilter_def tagging_def)
  then have inner: "evaluates tagging ?s 3 [] [3]"
    by (rule evaluatesI)
  have "filterImage tagging (Suc 0) ?s 2 [3] = Some [2, 3]"
    by (simp add: object_at_def applyFilter_def tagging_def)
  then have outer: "evaluates tagging ?s 2 [3] [2, 3]"
    by (rule evaluatesI)
  have "handle_ok ?s 2" "handle_ok ?s 3" "fresh accepting (fmdom ?s)"
    "constructs accepting (Compose 2 3)"
    by (simp_all add: handle_ok_def rc_def fresh_def accepting_def first_free_def)
  from chain_is_composition [OF this, of tagging] inner outer show ?thesis
    by blast
qed

subsection \<open>Blending is sensitive to the order of its operands\<close>

text \<open>
  Claim C2.  \<open>createBlendModeEffect bg fg mode\<close> blends the output of \<open>bg\<close> as background
  with the output of \<open>fg\<close> as foreground.  Whenever the blend mode does not commute on the
  outputs of the two inputs, the node built from \<open>(bg, fg)\<close> and the node built from
  \<open>(fg, bg)\<close> have different outputs.
\<close>

theorem blend_is_order_sensitive:
  assumes "handle_ok s bg" and "handle_ok s fg" and "fresh E (fmdom s)"
    and "constructs E (Blend mode bg fg)" and "constructs E (Blend mode fg bg)"
    and "evaluates R s bg x b" and "evaluates R s fg x f"
    and "blendOp R mode b f \<noteq> blendOp R mode f b"
  shows "\<exists>h1 s1 h2 s2.
      createBlendModeEffect E bg fg mode s = Inr (h1, s1)
    \<and> createBlendModeEffect E fg bg mode s = Inr (h2, s2)
    \<and> evaluates R s1 h1 x (blendOp R mode b f)
    \<and> evaluates R s2 h2 x (blendOp R mode f b)
    \<and> (\<forall>z. evaluates R s1 h1 x z \<longrightarrow> \<not> evaluates R s2 h2 x z)"
proof -
  let ?r1 = "nativeCreateBlendModeEffect bg fg mode"
  let ?r2 = "nativeCreateBlendModeEffect fg bg mode"
  have "\<exists>h s'. invoke E ?r1 s = Inr (h, s') \<and> built E ?r1 s h s'"
    by (rule invoke_builds) (use assms in simp_all)
  then obtain h1 s1 where call1: "createBlendModeEffect E bg fg mode s = Inr (h1, s1)"
    and b1: "built E ?r1 s h1 s1"
    by auto
  have "\<exists>h s'. invoke E ?r2 s = Inr (h, s') \<and> built E ?r2 s h s'"
    by (rule invoke_builds) (use assms in simp_all)
  then obtain h2 s2 where call2: "createBlendModeEffect E fg bg mode s = Inr (h2, s2)"
    and b2: "built E ?r2 s h2 s2"
    by auto
  have h: "h1 \<noteq> 0" "h2 \<noteq> 0"
    using b1 b2 by (simp_all add: built_def)
  have n1: "object_at s1 h1 = Some (Filter (Blend mode bg fg))"
    using built_object_at [OF b1] by simp
  have n2: "object_at s2 h2 = Some (Filter (Blend mode fg bg))"
    using built_object_at [OF b2] by simp
  have in1: "evaluates R s1 bg x b" "evaluates R s1 fg x f"
    using assms(6,7) built_shrinks [OF b1] by (auto intro: evaluates_extend)
  have in2: "evaluates R s2 bg x b" "evaluates R s2 fg x f"
    using assms(6,7) built_shrinks [OF b2] by (auto intro: evaluates_extend)
  have out1: "evaluates R s1 h1 x z \<longleftrightarrow> z = blendOp R mode b f" for z
    unfolding evaluates_Blend [OF h(1) n1]
    using in1 by (auto dest: evaluates_functional)
  have out2: "evaluates R s2 h2 x z \<longleftrightarrow> z = blendOp R mode f b" for z
    unfolding evaluates_Blend [OF h(2) n2]
    using in2 by (auto dest: evaluates_functional)
  from call1 call2 out1 out2 assms(8) show ?thesis
    by auto
qed

theorem blend_is_order_sensitive_witness:
  "\<exists>h1 s1 h2 s2.
      createBlendModeEffect accepting 1 2 3
        (fmupd 1 \<lparr>fRefCnt = 1, obj = Filter (Offset 1 0 0)\<rparr>
          (fmupd 2 \<lparr>fRefCnt = 1, obj = Filter (Offset 2 0 0)\<rparr> fmempty)) = Inr (h1, s1)
    \<and> createBlendModeEffect accepting 2 1 3
        (fmupd 1 \<lparr>fRefCnt = 1, obj = Filter (Offset 1 0 0)\<rparr>
          (fmupd 2 \<lparr>fRefCnt = 1, obj = Filter (Offset 2 0 0)\<rparr> fmempty)) = Inr (h2, s2)
    \<and> evaluates tagging s1 h1 [] [1, 2]
    \<and> evaluates tagging s2 h2 [] [2, 1]"
proof -
  let ?s = "fmupd 1 \<lparr>fRefCnt = 1, obj = Filter (Offset 1 0 0)\<rparr>
          (fmupd 2 \<lparr>fRefCnt = 1, obj = Filter (Offset 2 0 0)\<rparr> fmempty)"
  have "filterImage tagging (Suc 0) ?s 1 [] = Some [1]"
    by (simp add: object_at_def applyFilter_def tagging_def)
  then have bg: "evaluates tagging ?s 1 [] [1]"
    by (rule evaluatesI)
  have "filterImage tagging (Suc 0) ?s 2 [] = Some [2]"
    by (simp add: object_at_def applyFilter_def tagging_def)
  then have fg: "evaluates tagging ?s 2 [] [2]"
    by (rule evaluatesI)
  have "handle_ok ?s 1" "handle_ok ?s 2" "fresh accepting (fmdom ?s)"
    "constructs accepting (Blend 3 1 2)" "constructs accepting (Blend 3 2 1)"
    by (simp_all add: handle_ok_def rc_def fresh_def accepting_def first_free_def)
  moreover have "blendOp tagging 3 [1] [2] \<noteq> blendOp tagging 3 [2] [1]"
    by (simp add: tagging_def)
  ultimately show ?thesis
    using blend_is_order_sensitive [of ?s 1 2 accepting 3 tagging "[]" "[1]" "[2]"] bg fg
    by (simp add: tagging_def) blast
qed

subsection \<open>Blur: from radius to sigma\<close>

text \<open>
  Claim C3.  \<open>createBlurEffect\<close> hands the library the sigma of \<open>radiusX\<close> and the sigma
  of \<open>radiusY\<close>, both obtained by the one conversion \<open>Blur::convertRadiusToSigma\<close>; the
  conversion is a function of the radius alone.  Two calls with the same radii, in any
  two heaps and with any inputs and edge treatments, build nodes with the same two
  sigmas.
\<close>

theorem blur_sigma_from_radius:
  assumes "handle_ok s1 input1" and "fresh E (fmdom s1)"
    and "constructs E (Blur (convertRadiusToSigma E radiusX) (convertRadiusToSigma E radiusY) edge1 input1 None)"
    and "handle_ok s2 input2" and "fresh E (fmdom s2)"
    and "constructs E (Blur (convertRadiusToSigma E radiusX) (convertRadiusToSigma E radiusY) edge2 input2 None)"
  shows "\<exists>sigmaX sigmaY h1 t1 h2 t2.
      sigmaX = convertRadiusToSigma E radiusX \<and> sigmaY = convertRadiusToSigma E radiusY
    \<and> createBlurEffect E radiusX radiusY input1 edge1 s1 = Inr (h1, t1)
    \<and> createBlurEffect E radiusX radiusY input2 edge2 s2 = Inr (h2, t2)
    \<and> map_option obj (fmlookup t1 h1) = Some (Filter (Blur sigmaX sigmaY edge1 input1 None))
    \<and> map_option obj (fmlookup t2 h2) = Some (Filter (Blur sigmaX sigmaY edge2 input2 None))"
proof -
  have "\<exists>h t. invoke E (nativeCreateBlurEffect radiusX radiusY input1 edge1) s1 = Inr (h, t)
      \<and> built E (nativeCreateBlurEffect radiusX radiusY input1 edge1) s1 h t"
    by (rule invoke_builds) (use assms(1-3) in simp_all)
  moreover have "\<exists>h t. invoke E (nativeCreateBlurEffect radiusX radiusY input2 edge2) s2 = Inr (h, t)
      \<and> built E (nativeCreateBlurEffect radiusX radiusY input2 edge2) s2 h t"
    by (rule invoke_builds) (use assms(4-6) in simp_all)
  ultimately show ?thesis
    by (auto simp: built_def)
qed

theorem blur_sigma_from_radius_witness:
  "\<exists>h1 t1 h2 t2.
      createBlurEffect accepting 0x40A00000 0x40400000 0 0 fmempty = Inr (h1, t1)
    \<and> createBlurEffect accepting 0x40A00000 0x40400000 1 3
         (fmupd 1 \<lparr>fRefCnt = 1, obj = Filter (Offset 0x40A00000 0xC0400000 0)\<rparr> fmempty)
       = Inr (h2, t2)
    \<and> map_option obj (fmlookup t1 h1) = Some (Filter (Blur 0x40A00001 0x40400001 0 0 None))
    \<and> map_option obj (fmlookup t2 h2) = Some (Filter (Blur 0x40A00001 0x40400001 3 1 None))"
  using blur_sigma_from_radius [of fmempty 0 accepting "0x40A00000" "0x40400000" 0
    "fmupd 1 \<lparr>fRefCnt = 1, obj = Filter (Offset 0x40A00000 0xC0400000 0)\<rparr> fmempty" 1 3]
  by (simp add: fresh_def accepting_def first_free_def handle_ok_def rc_def)

subsection \<open>Releasing a handle once\<close>

text \<open>
  Claim C4.  In a heap that is in order for the handles \<open>H\<close> of the managed side, calling
  the finalizer once on a non-null handle \<open>h\<close> of \<open>H\<close> returns without a fault and leaves
  a heap in order for the remaining handles.  The count of the node of \<open>h\<close> is decremented
  exactly once: a node with further references stays, with its count one lower and
  nothing else in the heap changed; a node whose last reference this was is deleted.
  Every other non-null handle still names an object with a positive count and the contents
  it had, also when its graph refers to the released node.
\<close>

theorem release_once:
  assumes "heap_ok s H" and "h \<in># H" and "h \<noteq> 0"
  shows "\<exists>c s'. fmlookup s h = Some c \<and> getRenderEffectFinalizer h s = Inr s'
    \<and> heap_ok s' (H - {#h#})
    \<and> (if fRefCnt c = 1 then fmlookup s' h = None
        else s' = fmupd h (c\<lparr>fRefCnt := fRefCnt c - 1\<rparr>) s)
    \<and> (\<forall>h'. h' \<in># H - {#h#} \<longrightarrow> h' \<noteq> 0 \<longrightarrow>
          (\<exists>c'. fmlookup s' h' = Some c' \<and> 1 \<le> fRefCnt c' \<and> object_at s h' = Some (obj c')))"
proof -
  have call: "getRenderEffectFinalizer h s = unref_all [h] s"
    by (simp add: getRenderEffectFinalizer_def RenderEffect_safeUnref_def SkSafeUnref_def)
  from assms(2,3) have H: "H = (H - {#h#}) + owned [h]"
    by simp
  with assms(1) have "heap_ok s ((H - {#h#}) + owned [h])"
    by simp
  from unref_all_ok [OF this] obtain s' where s': "unref_all [h] s = Inr s'"
    and ok: "heap_ok s' (H - {#h#})" and sub: "shrinks s s'"
    by blast
  from assms(2) have "1 \<le> count H h"
    by (simp add: Suc_le_eq)
  with heap_okD [OF assms(1) assms(3)] have "1 \<le> rc s h"
    by linarith
  then obtain c where c: "fmlookup s h = Some c"
    by (auto simp: rc_def split: option.splits)
  have last: "fmlookup s' h = None" if "fRefCnt c = 1"
  proof -
    from s' c that assms(3) have "unref_all (members (obj c) @ []) (fmdrop h s) = Inr s'"
      by simp
    then have "shrinks (fmdrop h s) s'"
      by (rule unref_all_shrinks)
    then show ?thesis
      by (cases "fmlookup s' h") (force simp: shrinks_def)+
  qed
  have more: "s' = fmupd h (c\<lparr>fRefCnt := fRefCnt c - 1\<rparr>) s" if "fRefCnt c \<noteq> 1"
    using s' c that assms(3) by simp
  have others: "\<exists>c'. fmlookup s' h' = Some c' \<and> 1 \<le> fRefCnt c' \<and> object_at s h' = Some (obj c')"
    if "h' \<in># H - {#h#}" "h' \<noteq> 0" for h'
  proof -
    from that(1) have "1 \<le> count (H - {#h#}) h'"
      by (simp only: Suc_le_eq One_nat_def count_greater_zero_iff)
    with heap_okD [OF ok that(2)] have "1 \<le> rc s' h'"
      by linarith
    then obtain c' where c': "fmlookup s' h' = Some c'" "1 \<le> fRefCnt c'"
      by (auto simp: rc_def split: option.splits)
    with sub have "object_at s h' = Some (obj c')"
      by (fastforce simp: shrinks_def object_at_def)
    with c' show ?thesis
      by blast
  qed
  from c call s' ok last more others show ?thesis
    by auto
qed

theorem release_once_witness:
  "\<exists>s'. getRenderEffectFinalizer 1
       (fmupd 2 \<lparr>fRefCnt = 1, obj = Filter (Compose 1 0)\<rparr>
         (fmupd 1 \<lparr>fRefCnt = 2, obj = Filter (Offset 0x40A00000 0xC0400000 0)\<rparr> fmempty)) = Inr s'
     \<and> heap_ok s' {#2#}
     \<and> fmlookup s' 1 = Some \<lparr>fRefCnt = 1, obj = Filter (Offset 0x40A00000 0xC0400000 0)\<rparr>
     \<and> fmlookup s' 2 = Some \<lparr>fRefCnt = 1, obj = Filter (Compose 1 0)\<rparr>"
proof -
  let ?s1 = "fmupd 1 \<lparr>fRefCnt = 1, obj = Filter (Offset 0x40A00000 0xC0400000 0)\<rparr> fmempty"
  let ?s2 = "fmupd 2 \<lparr>fRefCnt = 1, obj = Filter (Compose 1 0)\<rparr>
         (fmupd 1 \<lparr>fRefCnt = 2, obj = Filter (Offset 0x40A00000 0xC0400000 0)\<rparr> fmempty)"
  have 1: "invoke accepting (nativeCreateOffsetEffect 0x40A00000 0xC0400000 0) fmempty = Inr (1, ?s1)"
    by (simp add: createOffsetEffect_def sk_ref_sp_def SkImageFilters_make_def new_object_def
        accepting_def first_free_def)
  have 2: "invoke accepting (nativeCreateChainEffect 1 0) ?s1 = Inr (2, ?s2)"
    by (simp add: createChainEffect_def sk_ref_sp_def SkImageFilters_make_def new_object_def
        accepting_def first_free_def)
  have "heap_ok ?s2 ({#} + owned [1] + owned [2])"
    by (intro invoke_heap_ok [OF _ 2] invoke_heap_ok [OF _ 1] heap_ok_empty)
  then have "heap_ok ?s2 {#1, 2#}"
    by (simp add: add_mset_commute)
  from release_once [OF this, of 1] show ?thesis
    by (auto simp: object_at_def fmupd_reorder_neq [of 1 2])
qed

subsection \<open>Handles are non-zero and distinct\<close>

text \<open>
  Claim C5.  For valid constructor inputs (usable handles, an allocator with an address
  to give, a node the library builds) a factory call returns a non-zero handle, at an
  address that was free, and the heap it leaves holds the requested node there.  A second
  request with valid inputs, made in the heap the first call leaves, returns a non-zero
  handle different from the first, and the heap then holds both nodes, each under its
  own handle.  The same holds for a second request made in any heap in which the first
  node is still allocated: its handle is not the first one, and the object of the first
  handle is as it was.
\<close>

theorem handles_nonzero_and_distinct:
  assumes "inputs_ok E r1 s" and "alloc_ok E r1 s" and "constructs E (requested E r1 s)"
  shows "\<exists>h1 s1. invoke E r1 s = Inr (h1, s1)
    \<and> h1 \<noteq> 0 \<and> fmlookup s h1 = None
    \<and> object_at s1 h1 = Some (Filter (requested E r1 s))
    \<and> (\<forall>r2. inputs_ok E r2 s1 \<longrightarrow> alloc_ok E r2 s1 \<longrightarrow> constructs E (requested E r2 s1) \<longrightarrow>
          (\<exists>h2 s2. invoke E r2 s1 = Inr (h2, s2)
             \<and> h2 \<noteq> 0 \<and> h2 \<noteq> h1
             \<and> object_at s2 h2 = Some (Filter (requested E r2 s1))
             \<and> object_at s2 h1 = Some (Filter (requested E r1 s))))
    \<and> (\<forall>t r2. fmlookup t h1 \<noteq> None \<longrightarrow>
          inputs_ok E r2 t \<longrightarrow> alloc_ok E r2 t \<longrightarrow> constructs E (requested E r2 t) \<longrightarrow>
          (\<exists>h2 t2. invoke E r2 t = Inr (h2, t2)
             \<and> h2 \<noteq> 0 \<and> h2 \<noteq> h1
             \<and> object_at t2 h2 = Some (Filter (requested E r2 t))
             \<and> object_at t2 h1 = object_at t h1))"
proof -
  from invoke_builds [OF assms] obtain h1 s1 where
    call1: "invoke E r1 s = Inr (h1, s1)" and b1: "built E r1 s h1 s1"
    by blast
  from b1 have h1: "h1 \<noteq> 0" "fmlookup s h1 = None"
    by (simp_all add: built_def)
  have node1: "object_at s1 h1 = Some (Filter (requested E r1 s))"
    using b1 by (rule built_object_at)
  have later: "\<exists>h2 t2. invoke E r2 t = Inr (h2, t2)
             \<and> h2 \<noteq> 0 \<and> h2 \<noteq> h1
             \<and> object_at t2 h2 = Some (Filter (requested E r2 t))
             \<and> object_at t2 h1 = object_at t h1"
    if alive: "fmlookup t h1 \<noteq> None"
      and valid: "inputs_ok E r2 t" "alloc_ok E r2 t" "constructs E (requested E r2 t)"
    for t r2
  proof -
    from invoke_builds [OF valid] obtain h2 t2 where
      call2: "invoke E r2 t = Inr (h2, t2)" and b2: "built E r2 t h2 t2"
      by blast
    from b2 have h2: "h2 \<noteq> 0" "fmlookup t h2 = None"
      by (simp_all add: built_def)
    with alive have "h2 \<noteq> h1"
      by auto
    moreover have "object_at t2 h2 = Some (Filter (requested E r2 t))"
      using b2 by (rule built_object_at)
    moreover from alive obtain c where c: "fmlookup t h1 = Some c"
      by auto
    with b2 have "object_at t2 h1 = object_at t h1"
      by (simp add: built_def object_at_def)
    ultimately show ?thesis
      using call2 h2(1) by blast
  qed
  have next_call: "\<exists>h2 s2. invoke E r2 s1 = Inr (h2, s2)
             \<and> h2 \<noteq> 0 \<and> h2 \<noteq> h1
             \<and> object_at s2 h2 = Some (Filter (requested E r2 s1))
             \<and> object_at s2 h1 = Some (Filter (requested E r1 s))"
    if valid: "inputs_ok E r2 s1" "alloc_ok E r2 s1" "constructs E (requested E r2 s1)" for r2
  proof -
    from node1 have "fmlookup s1 h1 \<noteq> None"
      by (auto simp: object_at_def)
    from later [OF this valid] node1 show ?thesis
      by auto
  qed
  from call1 h1 node1 next_call later show ?thesis
    by blast
qed

theorem handles_nonzero_and_distinct_witness:
  "\<exists>h1 s1 h2 s2.
     invoke accepting (nativeCreateOffsetEffect 0x40A00000 0xC0400000 0) fmempty = Inr (h1, s1)
   \<and> invoke accepting (nativeCreateOffsetEffect 0x40A00000 0xC0400000 0) s1 = Inr (h2, s2)
   \<and> h1 \<noteq> 0 \<and> h2 \<noteq> 0 \<and> h1 \<noteq> h2
   \<and> object_at s2 h1 = Some (Filter (Offset 0x40A00000 0xC0400000 0))
   \<and> object_at s2 h2 = Some (Filter (Offset 0x40A00000 0xC0400000 0))"
proof -
  let ?r = "nativeCreateOffsetEffect 0x40A00000 0xC0400000 0"
  let ?s1 = "fmupd 1 \<lparr>fRefCnt = 1, obj = Filter (Offset 0x40A00000 0xC0400000 0)\<rparr> fmempty"
  have first: "invoke accepting ?r fmempty = Inr (1, ?s1)"
    by (simp add: createOffsetEffect_def sk_ref_sp_def SkImageFilters_make_def new_object_def
        accepting_def first_free_def)
  have valid1: "inputs_ok accepting ?r fmempty" "alloc_ok accepting ?r fmempty"
    "constructs accepting (requested accepting ?r fmempty)"
    by (simp_all add: handle_ok_def fresh_def accepting_def first_free_def)
  have valid2: "inputs_ok accepting ?r ?s1" "alloc_ok accepting ?r ?s1"
    "constructs accepting (requested accepting ?r ?s1)"
    by (simp_all add: handle_ok_def fresh_def accepting_def first_free_def)
  from handles_nonzero_and_distinct [OF valid1] obtain h1 s1 where
    call1: "invoke accepting ?r fmempty = Inr (h1, s1)" and h1: "h1 \<noteq> 0"
    and seq: "\<forall>r2. inputs_ok accepting r2 s1 \<longrightarrow> alloc_ok accepting r2 s1 \<longrightarrow>
          constructs accepting (requested accepting r2 s1) \<longrightarrow>
          (\<exists>h2 s2. invoke accepting r2 s1 = Inr (h2, s2)
             \<and> h2 \<noteq> 0 \<and> h2 \<noteq> h1
             \<and> object_at s2 h2 = Some (Filter (requested accepting r2 s1))
             \<and> object_at s2 h1 = Some (Filter (requested accepting ?r fmempty)))"
    by (elim exE conjE)
  from call1 first have s1: "s1 = ?s1"
    by simp
  note seq [rule_format, of ?r, unfolded s1, OF valid2]
  then obtain h2 s2 where
    "invoke accepting ?r ?s1 = Inr (h2, s2)" "h2 \<noteq> 0" "h2 \<noteq> h1"
    "object_at s2 h2 = Some (Filter (requested accepting ?r ?s1))"
    "object_at s2 h1 = Some (Filter (requested accepting ?r fmempty))"
    by (elim exE conjE)
  with call1 h1 show ?thesis
    unfolding s1 by (intro exI [of _ h1] exI [of _ ?s1] exI [of _ h2] exI [of _ s2]) simp
qed

subsection \<open>Inputs are read only\<close>

text \<open>
  Claim C6.  A factory call with valid inputs returns a handle that is not null, was
  not an address of the heap before, and is none of its input handles; the handle owns
  (count one) a new node holding the inputs.  Every object that was in the heap is still
  there with its contents; its count has gone up by one for each time the request names
  it as an input, and by nothing else.
\<close>

theorem inputs_are_readonly:
  assumes "inputs_ok E r s" and "alloc_ok E r s" and "constructs E (requested E r s)"
  shows "\<exists>h s'. invoke E r s = Inr (h, s')
    \<and> h \<noteq> 0 \<and> fmlookup s h = None \<and> h \<notin> set (input_handles r)
    \<and> fmlookup s' h = Some \<lparr>fRefCnt = 1, obj = Filter (requested E r s)\<rparr>
    \<and> set (input_handles r) \<subseteq> set (inputs (requested E r s))
    \<and> (\<forall>p c. fmlookup s p = Some c \<longrightarrow>
          fmlookup s' p = Some (c\<lparr>fRefCnt := fRefCnt c + int (count (owned (input_handles r)) p)\<rparr>))"
proof -
  from invoke_builds [OF assms] obtain h s' where
    *: "invoke E r s = Inr (h, s')" "built E r s h s'"
    by blast
  have "p = 0 \<or> fmlookup s p \<noteq> None" if "p \<in> set (input_handles r)" for p
  proof -
    from that assms(1) have "handle_ok s p"
      by (cases r) auto
    then show ?thesis
      by (auto elim: handle_okE)
  qed
  moreover from * have "h \<noteq> 0" "fmlookup s h = None"
    by (simp_all add: built_def)
  ultimately have "h \<notin> set (input_handles r)"
    by force
  moreover have "set (input_handles r) \<subseteq> set (inputs (requested E r s))"
    by (cases r) auto
  ultimately show ?thesis
    using * unfolding built_def by blast
qed

theorem inputs_are_readonly_witness:
  "\<exists>h s'. invoke accepting (nativeCreateChainEffect 1 1)
       (fmupd 1 \<lparr>fRefCnt = 1, obj = Filter (Offset 0x40A00000 0xC0400000 0)\<rparr> fmempty)
     = Inr (h, s')
   \<and> h \<noteq> 0 \<and> h \<noteq> 1
   \<and> fmlookup s' h = Some \<lparr>fRefCnt = 1, obj = Filter (Compose 1 1)\<rparr>
   \<and> fmlookup s' 1 = Some \<lparr>fRefCnt = 3, obj = Filter (Offset 0x40A00000 0xC0400000 0)\<rparr>"
  using inputs_are_readonly [of accepting "nativeCreateChainEffect 1 1"
    "fmupd 1 \<lparr>fRefCnt = 1, obj = Filter (Offset 0x40A00000 0xC0400000 0)\<rparr> fmempty"]
  by (simp add: fresh_def accepting_def first_free_def handle_ok_def rc_def) force

subsection \<open>A node the library does not build\<close>

text \<open>
  Claim C7.  No factory operation has an error value to return: with inputs in order,
  the result is the handle the library's constructor produced.  When the library declines
  to build the node, the entry point returns normally with the null reference as the
  handle, and the heap is the one before the call (the references taken on the inputs
  have been given back); when it builds the node, the handle is the node's address.  The
  null handle denotes the filter that passes its source through unchanged.
\<close>

theorem construction_failure_is_null_handle:
  assumes "inputs_ok E r s"
  shows "(\<not> constructs E (requested E r s) \<longrightarrow> invoke E r s = Inr (0, s))
    \<and> (constructs E (requested E r s) \<longrightarrow> alloc_ok E r s \<longrightarrow>
          (\<exists>h s'. invoke E r s = Inr (h, s') \<and> h \<noteq> 0
             \<and> object_at s' h = Some (Filter (requested E r s))))
    \<and> (\<forall>x y. evaluates R s 0 x y \<longleftrightarrow> y = x)"
proof (intro conjI impI)
  assume "\<not> constructs E (requested E r s)"
  with assms show "invoke E r s = Inr (0, s)"
    by (rule invoke_refuses)
next
  assume "constructs E (requested E r s)" and "alloc_ok E r s"
  with assms have "\<exists>h s'. invoke E r s = Inr (h, s') \<and> built E r s h s'"
    by (intro invoke_builds)
  then show "\<exists>h s'. invoke E r s = Inr (h, s') \<and> h \<noteq> 0
      \<and> object_at s' h = Some (Filter (requested E r s))"
    by (auto simp: built_def object_at_def)
next
  show "\<forall>x y. evaluates R s 0 x y \<longleftrightarrow> y = x"
    by (simp add: evaluates_null)
qed

theorem construction_failure_is_null_handle_witness:
  "invoke refusing (nativeCreateChainEffect 1 1)
     (fmupd 1 \<lparr>fRefCnt = 1, obj = Filter (Offset 0x40A00000 0xC0400000 0)\<rparr> fmempty)
   = Inr (0, fmupd 1 \<lparr>fRefCnt = 1, obj = Filter (Offset 0x40A00000 0xC0400000 0)\<rparr> fmempty)"
  using construction_failure_is_null_handle [of refusing "nativeCreateChainEffect 1 1"
     "fmupd 1 \<lparr>fRefCnt = 1, obj = Filter (Offset 0x40A00000 0xC0400000 0)\<rparr> fmempty"]
  by (simp add: refusing_def handle_ok_def rc_def)

subsection \<open>An absent input\<close>

text \<open>
  Claim C8.  Every factory that takes an input-filter handle (offset, blur, colour
  filter, blend, chain) accepts \<open>0\<close> for it: taking the reference on a null pointer leaves
  the heap alone (nothing is dereferenced), and, with an allocator that has an address
  to give and the other handle null or usable, the call returns a handle and no fault.
\<close>

theorem absent_input_is_safe:
  assumes "fresh E (fmdom s)" and "handle_ok s other"
  shows "sk_ref_sp 0 s = Inr s
    \<and> (\<exists>h s'. createOffsetEffect E dx dy 0 s = Inr (h, s'))
    \<and> (\<exists>h s'. createBlurEffect E rx ry 0 edge s = Inr (h, s'))
    \<and> (\<exists>h s'. createColorFilterEffect E other 0 s = Inr (h, s'))
    \<and> (\<exists>h s'. createBlendModeEffect E other 0 mode s = Inr (h, s'))
    \<and> (\<exists>h s'. createBlendModeEffect E 0 other mode s = Inr (h, s'))
    \<and> (\<exists>h s'. createChainEffect E other 0 s = Inr (h, s'))
    \<and> (\<exists>h s'. createChainEffect E 0 other s = Inr (h, s'))"
proof -
  have null: "handle_ok s 0"
    by (simp add: handle_ok_def)
  have "\<exists>h s'. invoke E (nativeCreateOffsetEffect dx dy 0) s = Inr (h, s')"
    by (rule invoke_returns) (use assms null in simp_all)
  moreover have "\<exists>h s'. invoke E (nativeCreateBlurEffect rx ry 0 edge) s = Inr (h, s')"
    by (rule invoke_returns) (use assms null in simp_all)
  moreover have "\<exists>h s'. invoke E (nativeCreateColorFilterEffect other 0) s = Inr (h, s')"
    by (rule invoke_returns) (use assms null in simp_all)
  moreover have "\<exists>h s'. invoke E (nativeCreateBlendModeEffect other 0 mode) s = Inr (h, s')"
    by (rule invoke_returns) (use assms null in simp_all)
  moreover have "\<exists>h s'. invoke E (nativeCreateBlendModeEffect 0 other mode) s = Inr (h, s')"
    by (rule invoke_returns) (use assms null in simp_all)
  moreover have "\<exists>h s'. invoke E (nativeCreateChainEffect other 0) s = Inr (h, s')"
    by (rule invoke_returns) (use assms null in simp_all)
  moreover have "\<exists>h s'. invoke E (nativeCreateChainEffect 0 other) s = Inr (h, s')"
    by (rule invoke_returns) (use assms null in simp_all)
  ultimately show ?thesis
    by (simp add: sk_ref_sp_null)
qed

theorem absent_input_is_safe_witness:
  "(\<exists>h s'. createOffsetEffect accepting 0x40A00000 0xC0400000 0 fmempty = Inr (h, s'))
   \<and> (\<exists>h s'. createChainEffect accepting 0 0 fmempty = Inr (h, s'))
   \<and> (\<exists>h s'. createBlendModeEffect accepting 0 0 3 fmempty = Inr (h, s'))"
  using absent_input_is_safe [of accepting fmempty 0 "0x40A00000" "0xC0400000" 0 0 3]
  by (simp add: fresh_def accepting_def first_free_def handle_ok_def)

subsection \<open>The bitmap effect is a snapshot\<close>

text \<open>
  Claim C9.  \<open>createBitmapEffect\<close> builds an image node on the pixels the bitmap has at
  the call.  In every heap that differs from the heap after the call at most in the
  object at the bitmap's address (whatever is written to the bitmap afterwards), the node
  is the same and its output is the drawing of the pixels of the call; in particular it
  is the output it has when the bitmap is left alone.
\<close>

theorem bitmap_effect_is_snapshot:
  assumes "toBitmap b s = Inr px"
    and "fresh E (fmdom s)"
    and "fresh E (finsert (allocate E (fmdom s)) (fmdom s))"
    and "constructs E (Image (allocate E (fmdom s)) (MakeLTRB sl st sr sb)
        (MakeLTRB dl dt dr db) kLow_SkFilterQuality)"
  shows "\<exists>h s'. createBitmapEffect E b sl st sr sb dl dt dr db s = Inr (h, s')
    \<and> (\<forall>s''. differ_at b s' s'' \<longrightarrow>
          fmlookup s'' h = fmlookup s' h
        \<and> (\<forall>x z. evaluates R s'' h x z \<longleftrightarrow>
              z = drawImageOp R px (MakeLTRB sl st sr sb) (MakeLTRB dl dt dr db)
                    kLow_SkFilterQuality))"
proof -
  let ?img = "allocate E (fmdom s)"
  let ?h = "allocate E (finsert ?img (fmdom s))"
  let ?n = "Image ?img (MakeLTRB sl st sr sb) (MakeLTRB dl dt dr db) kLow_SkFilterQuality"
  let ?s' = "fmupd ?img \<lparr>fRefCnt = 1, obj = SkImage px\<rparr>
        (fmupd ?h \<lparr>fRefCnt = 1, obj = Filter ?n\<rparr>
           (fmupd ?img \<lparr>fRefCnt = 2, obj = SkImage px\<rparr> s))"
  have call: "createBitmapEffect E b sl st sr sb dl dt dr db s = Inr (?h, ?s')"
    using assms by (rule createBitmapEffect_builds)
  have img: "?img \<noteq> 0" "fmlookup s ?img = None"
    using assms(2) by (simp_all add: fresh_def fmdom_notD)
  have h: "?h \<noteq> 0" "?h \<noteq> ?img" "fmlookup s ?h = None"
    using assms(3) by (auto simp: fresh_def fmdom_notD)
  from toBitmap_allocated [OF assms(1)] img(2) h(3) have b: "b \<noteq> ?img" "b \<noteq> ?h"
    by (auto simp: object_at_def)
  have after: "fmlookup s'' ?h = fmlookup ?s' ?h
      \<and> (\<forall>x z. evaluates R s'' ?h x z \<longleftrightarrow>
              z = drawImageOp R px (MakeLTRB sl st sr sb) (MakeLTRB dl dt dr db)
                    kLow_SkFilterQuality)"
    if "differ_at b ?s' s''" for s''
  proof -
    from that b have same: "fmlookup s'' ?h = fmlookup ?s' ?h" "fmlookup s'' ?img = fmlookup ?s' ?img"
      by (simp_all add: differ_at_def)
    have node: "object_at s'' ?h = Some (Filter ?n)"
      using h by (simp add: object_at_def same)
    have image: "object_at s'' ?img = Some (SkImage px)"
      by (simp add: object_at_def same)
    from same(1) evaluates_Image [OF h(1) node image] show ?thesis
      by blast
  qed
  from call after show ?thesis
    by blast
qed

theorem bitmap_effect_is_snapshot_witness:
  "\<exists>h s'. createBitmapEffect accepting 4 0 0 0x42C80000 0x42C80000 0 0 0x42480000 0x42480000
        (fmupd 4 \<lparr>fRefCnt = 1, obj = Bitmap [7, 7]\<rparr> fmempty) = Inr (h, s')
    \<and> evaluates tagging s' h [] [7, 7]
    \<and> evaluates tagging (fmupd 4 \<lparr>fRefCnt = 1, obj = Bitmap [9, 9]\<rparr> s') h [] [7, 7]"
proof -
  let ?s = "fmupd 4 \<lparr>fRefCnt = 1, obj = Bitmap [7, 7]\<rparr> fmempty"
  let ?out = "drawImageOp tagging [7, 7] (MakeLTRB 0 0 0x42C80000 0x42C80000)
      (MakeLTRB 0 0 0x42480000 0x42480000) kLow_SkFilterQuality"
  have "\<exists>h s'. createBitmapEffect accepting 4 0 0 0x42C80000 0x42C80000 0 0 0x42480000 0x42480000 ?s
        = Inr (h, s')
      \<and> (\<forall>s''. differ_at 4 s' s'' \<longrightarrow> fmlookup s'' h = fmlookup s' h
            \<and> (\<forall>x z. evaluates tagging s'' h x z \<longleftrightarrow> z = ?out))"
    by (rule bitmap_effect_is_snapshot)
      (simp_all add: toBitmap_def fresh_def accepting_def first_free_def)
  then obtain h s' where
    call: "createBitmapEffect accepting 4 0 0 0x42C80000 0x42C80000 0 0 0x42480000 0x42480000 ?s
        = Inr (h, s')"
    and snap: "\<forall>s''. differ_at 4 s' s'' \<longrightarrow> fmlookup s'' h = fmlookup s' h
            \<and> (\<forall>x z. evaluates tagging s'' h x z \<longleftrightarrow> z = ?out)"
    by (elim exE conjE)
  have out: "?out = [7, 7]"
    by (simp add: tagging_def)
  have "differ_at 4 s' s'"
    by (simp add: differ_at_def)
  with snap have before: "evaluates tagging s' h [] ?out"
    by blast
  have "differ_at 4 s' (fmupd 4 \<lparr>fRefCnt = 1, obj = Bitmap [9, 9]\<rparr> s')"
    by (simp add: differ_at_def)
  with snap have after: "evaluates tagging (fmupd 4 \<lparr>fRefCnt = 1, obj = Bitmap [9, 9]\<rparr> s') h [] ?out"
    by blast
  from call before after show ?thesis
    unfolding out by blast
qed

subsection \<open>The finalizer on the null handle\<close>

text \<open>
  Claim C10.  The deallocation hook returned by \<open>getRenderEffectFinalizer\<close> is null-safe:
  called on the handle \<open>0\<close> it returns normally and leaves the heap, and with it every
  live handle, exactly as it was; the release path tests the pointer before it touches a
  count.
\<close>

theorem finalizer_null_is_noop: "getRenderEffectFinalizer 0 s = Inr s"
  by (simp add: getRenderEffectFinalizer_def RenderEffect_safeUnref_def SkSafeUnref_def)

end
